theory Spec2Isabelle
  imports Complex_Main
begin

section \<open>Data model of the voxel engine\<close>

text \<open>
  The embedding follows \<^verbatim>\<open>src/services/VoxelEngine.ts\<close>. JavaScript numbers are
  idealised as \<^typ>\<open>real\<close> (no rounding error, no NaN, no infinities); packed colours
  and timestamps are integers. The rendering side of the class (scene, meshes, camera,
  ghost block) is a consumer of the voxel records and is left out.

  The declarations of \<^verbatim>\<open>../types\<close> are not part of the sources; the records below
  carry exactly the fields the engine reads and writes. Field names are prefixed
  (\<open>d_\<close> VoxelData, \<open>v_\<close> SimulationVoxel, \<open>t_\<close> RebuildTarget, \<open>c_\<close> THREE.Color,
  \<open>a_\<close> the entries of \<^verbatim>\<open>available\<close>) because the source reuses \<open>x\<close>, \<open>y\<close>, \<open>z\<close>
  and \<open>color\<close> in several of them.
\<close>

datatype AppState = STABLE | DISMANTLING | REBUILDING

datatype error = TypeError

record Color =
  c_r :: real
  c_g :: real
  c_b :: real

record VoxelData =
  d_x :: real
  d_y :: real
  d_z :: real
  d_color :: int

record SimulationVoxel =
  v_id :: nat
  v_x :: real
  v_y :: real
  v_z :: real
  v_color :: Color
  v_vx :: real
  v_vy :: real
  v_vz :: real
  v_rx :: real
  v_ry :: real
  v_rz :: real
  v_rvx :: real
  v_rvy :: real
  v_rvz :: real

record RebuildTarget =
  t_x :: real
  t_y :: real
  t_z :: real
  t_isRubble :: bool
  t_delay :: real

record AvailEntry =
  a_index :: nat
  a_color :: Color
  a_taken :: bool

text \<open>
  The engine instance: the private fields the simulation core uses, and the two
  callbacks \<^verbatim>\<open>onStateChange\<close> and \<^verbatim>\<open>onCountChange\<close> as logs of the values they were
  called with.
\<close>

record Engine =
  voxels :: "SimulationVoxel list"
  rebuildTargets :: "RebuildTarget list"
  rebuildStartTime :: int
  state :: AppState
  stateLog :: "AppState list"
  countLog :: "nat list"

section \<open>THREE.Color\<close>

text \<open>
  The colour class belongs to the three.js library, with colour management switched on
  as the library has it by default since r152 (the sources never switch it off).
  \<^verbatim>\<open>new THREE.Color(hex)\<close> on a number is \<^verbatim>\<open>setHex\<close>: the three bytes of the low 24
  bits, each divided by 255 and then taken from sRGB to the linear working colour
  space by \<^verbatim>\<open>SRGBToLinear\<close>. \<^verbatim>\<open>getHex\<close> takes the channels back by
  \<^verbatim>\<open>LinearToSRGB\<close> and rounds the clamped results, and \<^verbatim>\<open>getHexString\<close> is
  \<^verbatim>\<open>('000000' + getHex().toString(16)).slice(-6)\<close>. \<^verbatim>\<open>Math.pow\<close> is \<open>powr\<close>; both
  calls have a positive base.
\<close>

definition SRGBToLinear :: "real \<Rightarrow> real" where
  "SRGBToLinear c =
     (if c < 0.04045 then c * 0.0773993808
      else (c * 0.9478672986 + 0.0521327014) powr 2.4)"

definition LinearToSRGB :: "real \<Rightarrow> real" where
  "LinearToSRGB c =
     (if c < 0.0031308 then c * 12.92 else 1.055 * (c powr 0.41666) - 0.055)"

definition setHex :: "int \<Rightarrow> Color" where
  "setHex hex =
     \<lparr> c_r = SRGBToLinear (real_of_int ((hex div 65536) mod 256) / 255),
       c_g = SRGBToLinear (real_of_int ((hex div 256) mod 256) / 255),
       c_b = SRGBToLinear (real_of_int (hex mod 256) / 255) \<rparr>"

definition clamp :: "real \<Rightarrow> real \<Rightarrow> real \<Rightarrow> real" where
  "clamp v lo hi = max lo (min hi v)"

definition Math_round :: "real \<Rightarrow> int" where
  "Math_round v = \<lfloor>v + 1 / 2\<rfloor>"

definition getHex :: "Color \<Rightarrow> int" where
  "getHex c =
     Math_round (clamp (LinearToSRGB (c_r c) * 255) 0 255) * 65536
       + Math_round (clamp (LinearToSRGB (c_g c) * 255) 0 255) * 256
       + Math_round (clamp (LinearToSRGB (c_b c) * 255) 0 255)"

definition hexDigit :: "nat \<Rightarrow> char" where
  "hexDigit n = ''0123456789abcdef'' ! (n mod 16)"

function toString16 :: "nat \<Rightarrow> string" where
  "toString16 n =
     (if n < 16 then [hexDigit n] else toString16 (n div 16) @ [hexDigit (n mod 16)])"
  by pat_completeness auto
termination
  by (relation "measure (\<lambda>n. n)") auto

definition getHexString :: "Color \<Rightarrow> string" where
  "getHexString c =
     (let s = ''000000'' @ toString16 (nat (getHex c)) in drop (length s - 6) s)"

section \<open>The reassembly matcher\<close>

text \<open>\<^verbatim>\<open>getColorDist(c1, hex2)\<close>, lines 271-277.\<close>

definition getColorDist :: "Color \<Rightarrow> int \<Rightarrow> real" where
  "getColorDist c1 hex2 =
     (let c2 = setHex hex2;
          r = (c_r c1 - c_r c2) * 0.3;
          g = (c_g c1 - c_g c2) * 0.59;
          b = (c_b c1 - c_b c2) * 0.11
      in sqrt (r * r + g * g + b * b))"

text \<open>
  The argument of the square root in \<^verbatim>\<open>getColorDist\<close>; comparisons of distances
  are decided on it.
\<close>

definition colorDistSq :: "Color \<Rightarrow> int \<Rightarrow> real" where
  "colorDistSq c1 hex2 =
     (let c2 = setHex hex2;
          r = (c_r c1 - c_r c2) * 0.3;
          g = (c_g c1 - c_g c2) * 0.59;
          b = (c_b c1 - c_b c2) * 0.11
      in r * r + g * g + b * b)"

text \<open>
  The inner \<^verbatim>\<open>for\<close> loop of \<^verbatim>\<open>rebuild\<close>, lines 289-297, over the entries of
  \<^verbatim>\<open>available\<close> from position \<open>i\<close> on, with the running \<^verbatim>\<open>bestDist\<close> and
  \<^verbatim>\<open>bestIdx\<close> (\<open>None\<close> is the source's \<open>-1\<close>). The \<^verbatim>\<open>break\<close> returns at once.
\<close>

fun scan :: "int \<Rightarrow> AvailEntry list \<Rightarrow> nat \<Rightarrow> real \<Rightarrow> nat option \<Rightarrow> nat option" where
  "scan hex [] i bestDist bestIdx = bestIdx"
| "scan hex (a # as) i bestDist bestIdx =
     (if a_taken a then scan hex as (Suc i) bestDist bestIdx
      else
        let d = getColorDist (a_color a) hex in
        if d < bestDist then
          (if d < 0.01 then Some i else scan hex as (Suc i) d (Some i))
        else scan hex as (Suc i) bestDist bestIdx)"

text \<open>
  The same loop with the \<^verbatim>\<open>if (d < 0.01) break;\<close> line removed: the full scan the
  specification compares the early exit with.
\<close>

fun scanFull :: "int \<Rightarrow> AvailEntry list \<Rightarrow> nat \<Rightarrow> real \<Rightarrow> nat option \<Rightarrow> nat option" where
  "scanFull hex [] i bestDist bestIdx = bestIdx"
| "scanFull hex (a # as) i bestDist bestIdx =
     (if a_taken a then scanFull hex as (Suc i) bestDist bestIdx
      else
        let d = getColorDist (a_color a) hex in
        if d < bestDist then scanFull hex as (Suc i) d (Some i)
        else scanFull hex as (Suc i) bestDist bestIdx)"

text \<open>
  The body of \<^verbatim>\<open>targetModel.forEach\<close>, lines 285-307, on the pair of the working
  arrays \<^verbatim>\<open>available\<close> and \<^verbatim>\<open>mappings\<close> (\<open>None\<close> is the \<^verbatim>\<open>null\<close> the array is
  filled with). \<open>FLOOR_Y\<close> is \<^verbatim>\<open>CONFIG.FLOOR_Y\<close> of \<^verbatim>\<open>../utils/voxelConstants\<close>, which
  is not part of the sources and is a parameter here.
\<close>

definition matchStep ::
  "real \<Rightarrow> AvailEntry list \<times> RebuildTarget option list \<Rightarrow> VoxelData
     \<Rightarrow> AvailEntry list \<times> RebuildTarget option list" where
  "matchStep FLOOR_Y st target =
     (case st of (available, mappings) \<Rightarrow>
        (case scan (d_color target) available 0 9999 None of
           None \<Rightarrow> (available, mappings)
         | Some bestIdx \<Rightarrow>
             let available' = available[bestIdx := (available ! bestIdx)\<lparr>a_taken := True\<rparr>];
                 h = max 0 ((d_y target - FLOOR_Y) / 15)
             in (available',
                 mappings[a_index (available' ! bestIdx) :=
                   Some \<lparr> t_x = d_x target, t_y = d_y target, t_z = d_z target,
                          t_isRubble = False, t_delay = h * 800 \<rparr>])))"

definition initAvailable :: "SimulationVoxel list \<Rightarrow> AvailEntry list" where
  "initAvailable vs =
     map (\<lambda>(v, i). \<lparr> a_index = i, a_color = v_color v, a_taken = False \<rparr>)
       (zip vs [0..<length vs])"

text \<open>The rubble entry of lines 309-316 for a voxel the matcher left unassigned.\<close>

definition rubbleTarget :: "SimulationVoxel \<Rightarrow> RebuildTarget" where
  "rubbleTarget v =
     \<lparr> t_x = v_x v, t_y = v_y v, t_z = v_z v, t_isRubble = True, t_delay = 0 \<rparr>"

definition fillRubble ::
  "SimulationVoxel list \<Rightarrow> RebuildTarget option list \<Rightarrow> RebuildTarget list" where
  "fillRubble vs mappings =
     map (\<lambda>(m, v). case m of None \<Rightarrow> rubbleTarget v | Some t \<Rightarrow> t) (zip mappings vs)"

text \<open>
  The matcher as \<^verbatim>\<open>rebuild\<close> runs it: the working arrays after all targets, in the
  order of the list.
\<close>

definition runMatcher ::
  "real \<Rightarrow> SimulationVoxel list \<Rightarrow> VoxelData list
     \<Rightarrow> AvailEntry list \<times> RebuildTarget option list" where
  "runMatcher FLOOR_Y vs targetModel =
     foldl (matchStep FLOOR_Y) (initAvailable vs, replicate (length vs) None) targetModel"

text \<open>
  \<^verbatim>\<open>rebuild(targetModel)\<close>, lines 279-322. \<open>now\<close> is the value of \<^verbatim>\<open>Date.now()\<close> at
  the call.
\<close>

definition rebuild :: "real \<Rightarrow> int \<Rightarrow> VoxelData list \<Rightarrow> Engine \<Rightarrow> Engine" where
  "rebuild FLOOR_Y now targetModel s =
     (if state s = REBUILDING then s
      else
        let mappings = fillRubble (voxels s) (snd (runMatcher FLOOR_Y (voxels s) targetModel))
        in s\<lparr> rebuildTargets := mappings,
               rebuildStartTime := now,
               state := REBUILDING,
               stateLog := stateLog s @ [REBUILDING] \<rparr>)"

section \<open>Voxel store\<close>

text \<open>
  The voxel array \<^verbatim>\<open>createVoxels\<close> builds, lines 130-138.
\<close>

definition createVoxels :: "VoxelData list \<Rightarrow> SimulationVoxel list" where
  "createVoxels data =
     map (\<lambda>(v, i).
            \<lparr> v_id = i, v_x = d_x v, v_y = d_y v, v_z = d_z v, v_color = setHex (d_color v),
              v_vx = 0, v_vy = 0, v_vz = 0, v_rx = 0, v_ry = 0, v_rz = 0,
              v_rvx = 0, v_rvy = 0, v_rvz = 0 \<rparr>)
       (zip data [0..<length data])"

text \<open>
  The call of \<^verbatim>\<open>draw()\<close> that ends \<^verbatim>\<open>createVoxels\<close> (line 147), on the
  \<^verbatim>\<open>InstancedMesh\<close> just made for the voxel array. The \<^verbatim>\<open>instanceColor\<close> attribute of a
  new mesh is null; the first \<^verbatim>\<open>setColorAt\<close> of the loop creates it, and line 160
  writes \<^verbatim>\<open>instanceColor!.needsUpdate\<close>. With no voxel the loop body never runs and
  that line throws.
\<close>

definition drawFresh :: "SimulationVoxel list \<Rightarrow> error option" where
  "drawFresh vs =
     (let instanceColor = (if vs = [] then None else Some vs)
      in case instanceColor of None \<Rightarrow> Some TypeError | Some _ \<Rightarrow> None)"

text \<open>
  \<^verbatim>\<open>loadInitialModel\<close>, lines 112-117, with \<^verbatim>\<open>createVoxels\<close>, lines 119-148. When
  \<^verbatim>\<open>draw()\<close> throws, the count and state notifications and the write of the state
  are not reached; the voxel array has been replaced by then, so the engine object is
  left as \<open>s\<lparr>voxels := []\<rparr>\<close>.
\<close>

definition loadInitialModel :: "VoxelData list \<Rightarrow> Engine \<Rightarrow> error + Engine" where
  "loadInitialModel data s =
     (let s1 = s\<lparr> voxels := createVoxels data \<rparr> in
      case drawFresh (voxels s1) of
        Some e \<Rightarrow> Inl e
      | None \<Rightarrow>
          Inr (s1\<lparr> countLog := countLog s1 @ [length (voxels s1)],
                    state := STABLE,
                    stateLog := stateLog s1 @ [STABLE] \<rparr>))"

text \<open>\<^verbatim>\<open>getVoxelData\<close>, lines 405-412.\<close>

definition getVoxelData :: "Engine \<Rightarrow> VoxelData list" where
  "getVoxelData s =
     map (\<lambda>v. \<lparr> d_x = v_x v, d_y = v_y v, d_z = v_z v, d_color = getHex (v_color v) \<rparr>)
       (voxels s)"

text \<open>
  \<^verbatim>\<open>+v.toFixed(2)\<close>: the nearest multiple of 1/100, a tie going away from zero.
  For magnitudes of \<open>10^21\<close> and more \<^verbatim>\<open>toFixed\<close> prints the number itself; a double
  of that size is an integer, which this rounding leaves as it is.
\<close>

definition toFixed2 :: "real \<Rightarrow> real" where
  "toFixed2 v =
     (if v < 0 then - (real_of_int \<lfloor>(- v) * 100 + 1 / 2\<rfloor> / 100)
      else real_of_int \<lfloor>v * 100 + 1 / 2\<rfloor> / 100)"

record JsonRecord =
  j_id :: nat
  j_x :: real
  j_y :: real
  j_z :: real
  j_c :: string

text \<open>
  The array \<^verbatim>\<open>data\<close> of \<^verbatim>\<open>getJsonData\<close>, lines 414-423, which \<^verbatim>\<open>JSON.stringify\<close>
  then prints.
\<close>

definition getJsonData :: "Engine \<Rightarrow> JsonRecord list" where
  "getJsonData s =
     map (\<lambda>(v, i).
            \<lparr> j_id = i, j_x = toFixed2 (v_x v), j_y = toFixed2 (v_y v), j_z = toFixed2 (v_z v),
              j_c = CHR ''#'' # getHexString (v_color v) \<rparr>)
       (zip (voxels s) [0..<length (voxels s)])"

section \<open>State machine, physics integrator and animator\<close>

text \<open>
  \<^verbatim>\<open>dismantle()\<close>, lines 256-269. \<open>random k\<close> is the value of the \<open>k\<close>-th call of
  \<^verbatim>\<open>Math.random()\<close> made by the loop, six calls a voxel.
\<close>

definition dismantle :: "(nat \<Rightarrow> real) \<Rightarrow> Engine \<Rightarrow> Engine" where
  "dismantle random s =
     (if state s \<noteq> STABLE then s
      else
        s\<lparr> state := DISMANTLING,
            stateLog := stateLog s @ [DISMANTLING],
            voxels :=
              map (\<lambda>(v, i).
                     v\<lparr> v_vx := (random (6 * i) - 0.5) * 0.8,
                        v_vy := random (6 * i + 1) * 0.5,
                        v_vz := (random (6 * i + 2) - 0.5) * 0.8,
                        v_rvx := (random (6 * i + 3) - 0.5) * 0.2,
                        v_rvy := (random (6 * i + 4) - 0.5) * 0.2,
                        v_rvz := (random (6 * i + 5) - 0.5) * 0.2 \<rparr>)
                (zip (voxels s) [0..<length (voxels s)]) \<rparr>)"

text \<open>The body of the Dismantling loop, lines 326-336, statement by statement.\<close>

definition physicsVoxel :: "real \<Rightarrow> SimulationVoxel \<Rightarrow> SimulationVoxel" where
  "physicsVoxel FLOOR_Y v0 =
     (let v1 = v0\<lparr> v_vy := v_vy v0 - 0.025 \<rparr>;
          v2 = v1\<lparr> v_x := v_x v1 + v_vx v1, v_y := v_y v1 + v_vy v1, v_z := v_z v1 + v_vz v1 \<rparr>;
          v3 = v2\<lparr> v_rx := v_rx v2 + v_rvx v2, v_ry := v_ry v2 + v_rvy v2,
                   v_rz := v_rz v2 + v_rvz v2 \<rparr>
      in if v_y v3 < FLOOR_Y + 0.5 then
           v3\<lparr> v_y := FLOOR_Y + 0.5,
               v_vy := v_vy v3 * (- 0.5), v_vx := v_vx v3 * 0.9, v_vz := v_vz v3 * 0.9,
               v_rvx := v_rvx v3 * 0.8, v_rvy := v_rvy v3 * 0.8, v_rvz := v_rvz v3 * 0.8 \<rparr>
         else v3)"

text \<open>
  The body of the Rebuilding loop, lines 342-365, for one voxel and its entry \<open>t\<close> of
  \<^verbatim>\<open>rebuildTargets\<close>. The second component is \<open>False\<close> where the source sets
  \<^verbatim>\<open>allDone = false\<close>.
\<close>

definition animateVoxel ::
  "real \<Rightarrow> SimulationVoxel \<Rightarrow> RebuildTarget \<Rightarrow> SimulationVoxel \<times> bool" where
  "animateVoxel elapsed v0 t =
     (if t_isRubble t then (v0, True)
      else if elapsed < t_delay t then (v0, False)
      else
        let speed = 0.12;
            v1 = v0\<lparr> v_x := v_x v0 + (t_x t - v_x v0) * speed \<rparr>;
            v2 = v1\<lparr> v_y := v_y v1 + (t_y t - v_y v1) * speed \<rparr>;
            v3 = v2\<lparr> v_z := v_z v2 + (t_z t - v_z v2) * speed \<rparr>;
            v4 = v3\<lparr> v_rx := v_rx v3 + (0 - v_rx v3) * speed \<rparr>;
            v5 = v4\<lparr> v_ry := v_ry v4 + (0 - v_ry v4) * speed \<rparr>;
            v6 = v5\<lparr> v_rz := v_rz v5 + (0 - v_rz v5) * speed \<rparr>
        in if (t_x t - v_x v6)\<^sup>2 + (t_y t - v_y v6)\<^sup>2 + (t_z t - v_z v6)\<^sup>2 > 0.01
           then (v6, False)
           else (v6\<lparr> v_x := t_x t, v_y := t_y t, v_z := t_z t,
                     v_rx := 0, v_ry := 0, v_rz := 0 \<rparr>, True))"

text \<open>
  \<^verbatim>\<open>updatePhysics()\<close>, lines 324-371, at \<^verbatim>\<open>Date.now() = now\<close>. In the Rebuilding
  branch a voxel with no entry in \<^verbatim>\<open>rebuildTargets\<close> makes \<^verbatim>\<open>t.isRubble\<close> throw;
  the voxels before it have then moved already, and the model keeps the error alone.
  The pulsing of the ghost block at the end of the method is rendering.
\<close>

definition updatePhysics :: "real \<Rightarrow> int \<Rightarrow> Engine \<Rightarrow> error + Engine" where
  "updatePhysics FLOOR_Y now s =
     (if state s = DISMANTLING then
        Inr (s\<lparr> voxels := map (physicsVoxel FLOOR_Y) (voxels s) \<rparr>)
      else if state s = REBUILDING then
        (let elapsed = real_of_int (now - rebuildStartTime s) in
         if length (rebuildTargets s) < length (voxels s) then Inl TypeError
         else
           let res = map (\<lambda>(v, t). animateVoxel elapsed v t) (zip (voxels s) (rebuildTargets s));
               allDone = list_all snd res;
               s1 = s\<lparr> voxels := map fst res \<rparr>
           in if allDone then Inr (s1\<lparr> state := STABLE, stateLog := stateLog s1 @ [STABLE] \<rparr>)
              else Inr s1)
      else Inr s)"

text \<open>Successive frames: \<^verbatim>\<open>updatePhysics\<close> at each timestamp of the list in turn.\<close>

fun ticks :: "real \<Rightarrow> int list \<Rightarrow> Engine \<Rightarrow> error + Engine" where
  "ticks FLOOR_Y [] s = Inr s"
| "ticks FLOOR_Y (now # nows) s =
     (case updatePhysics FLOOR_Y now s of
        Inl e \<Rightarrow> Inl e
      | Inr s' \<Rightarrow> ticks FLOOR_Y nows s')"

section \<open>Example inputs\<close>

text \<open>Concrete voxels and engines on which the theorems below are exercised.\<close>

definition exVoxel :: "real \<Rightarrow> real \<Rightarrow> SimulationVoxel" where
  "exVoxel y vy =
     \<lparr> v_id = 0, v_x = 1, v_y = y, v_z = 2, v_color = setHex 0xFF0000,
       v_vx = 0.4, v_vy = vy, v_vz = - 0.2, v_rx = 0, v_ry = 0, v_rz = 0,
       v_rvx = 0.1, v_rvy = 0, v_rvz = - 0.1 \<rparr>"

definition exEngine :: "AppState \<Rightarrow> SimulationVoxel list \<Rightarrow> RebuildTarget list \<Rightarrow> Engine" where
  "exEngine st vs ts =
     \<lparr> voxels = vs, rebuildTargets = ts, rebuildStartTime = 0, state = st,
       stateLog = [], countLog = [] \<rparr>"

section \<open>The colour distance in the words of the specification\<close>

text \<open>
  The normalised 0-1 channel values of a packed colour (red, green, blue: each byte over
  255), and the weighted Euclidean distance of two channel vectors: the square root of
  the sum of the squared channel differences, each multiplied by the weight of its
  channel. The luma-like weights are 0.3, 0.59 and 0.11.
\<close>

definition normalized :: "int \<Rightarrow> real list" where
  "normalized hex = map (\<lambda>k. real_of_int ((hex div 256 ^ k) mod 256) / 255) [2, 1, 0]"

definition weightedEuclidean :: "real list \<Rightarrow> real list \<Rightarrow> real list \<Rightarrow> real" where
  "weightedEuclidean ws xs ys =
     sqrt (sum_list (map (\<lambda>(w, x, y). w * (x - y)\<^sup>2) (zip ws (zip xs ys))))"

definition lumaWeights :: "real list" where
  "lumaWeights = [0.3, 0.59, 0.11]"

section \<open>Convergence of a voxel in the animator\<close>

text \<open>
  The squared Euclidean distance between a voxel and its target once the position has
  been eased by the step 0.12, and the test the animator applies to it: a voxel has
  converged in a tick when its delay has passed and that distance is not above 0.01.
\<close>

definition distSqAfterEase :: "SimulationVoxel \<Rightarrow> RebuildTarget \<Rightarrow> real" where
  "distSqAfterEase v t =
     (t_x t - (v_x v + (t_x t - v_x v) * 0.12))\<^sup>2
       + (t_y t - (v_y v + (t_y t - v_y v) * 0.12))\<^sup>2
       + (t_z t - (v_z v + (t_z t - v_z v) * 0.12))\<^sup>2"

definition converged :: "real \<Rightarrow> SimulationVoxel \<Rightarrow> RebuildTarget \<Rightarrow> bool" where
  "converged elapsed v t = (\<not> elapsed < t_delay t \<and> \<not> distSqAfterEase v t > 0.01)"

text \<open>
  Two engines in the Rebuilding state: one with a rubble voxel, a waiting voxel and a
  voxel far from its target, one with a rubble voxel and a voxel next to its target.
\<close>

definition exRebuildingA :: Engine where
  "exRebuildingA =
     exEngine REBUILDING
       [exVoxel 3 0, exVoxel 0.5 0, (exVoxel 0.5 0)\<lparr> v_rx := 1 \<rparr>]
       [rubbleTarget (exVoxel 3 0),
        \<lparr> t_x = 1, t_y = 15, t_z = 2, t_isRubble = False, t_delay = 800 \<rparr>,
        \<lparr> t_x = 1, t_y = 10.5, t_z = 2, t_isRubble = False, t_delay = 0 \<rparr>]"

definition exRebuildingB :: Engine where
  "exRebuildingB =
     exEngine REBUILDING
       [exVoxel 3 0, (exVoxel 0.55 0)\<lparr> v_rx := 1 \<rparr>]
       [rubbleTarget (exVoxel 3 0),
        \<lparr> t_x = 1, t_y = 0.5, t_z = 2, t_isRubble = False, t_delay = 0 \<rparr>]"

section \<open>Observing the matcher\<close>

text \<open>
  The channels of a colour built by \<^verbatim>\<open>new THREE.Color(hex)\<close> lie between 0 and 1.
\<close>

definition validColor :: "Color \<Rightarrow> bool" where
  "validColor c =
     (0 \<le> c_r c \<and> c_r c \<le> 1 \<and> 0 \<le> c_g c \<and> c_g c \<le> 1 \<and> 0 \<le> c_b c \<and> c_b c \<le> 1)"

text \<open>
  The entry the matcher writes for a target (lines 301-305), and the value of
  \<^verbatim>\<open>bestIdx\<close> after the inner loop for the \<open>j\<close>-th target: the scan over
  \<^verbatim>\<open>available\<close> as the targets before \<open>j\<close> have left it.
\<close>

definition matchedTarget :: "real \<Rightarrow> VoxelData \<Rightarrow> RebuildTarget" where
  "matchedTarget FLOOR_Y target =
     \<lparr> t_x = d_x target, t_y = d_y target, t_z = d_z target, t_isRubble = False,
       t_delay = max 0 ((d_y target - FLOOR_Y) / 15) * 800 \<rparr>"

definition bestIdxAt :: "real \<Rightarrow> SimulationVoxel list \<Rightarrow> VoxelData list \<Rightarrow> nat \<Rightarrow> nat option" where
  "bestIdxAt FLOOR_Y vs targetModel j =
     scan (d_color (targetModel ! j)) (fst (runMatcher FLOOR_Y vs (take j targetModel)))
       0 9999 None"

text \<open>
  Source \<open>i\<close> is not yet taken when the \<open>j\<close>-th target is processed: no earlier
  target has chosen it.
\<close>

definition freeAt :: "real \<Rightarrow> SimulationVoxel list \<Rightarrow> VoxelData list \<Rightarrow> nat \<Rightarrow> nat \<Rightarrow> bool" where
  "freeAt FLOOR_Y vs targetModel j i =
     (i < length vs \<and> Some i \<notin> set (map (bestIdxAt FLOOR_Y vs targetModel) [0..<j]))"

text \<open>
  What the loop over the targets maintains: both working arrays keep the length of the
  voxel array, entry \<open>i\<close> of \<^verbatim>\<open>available\<close> carries index \<open>i\<close> and the colour of voxel
  \<open>i\<close>, it is taken exactly when \<^verbatim>\<open>mappings[i]\<close> is set, and a set entry is not
  rubble. The set of taken indices is counted below.
\<close>

definition matchInv ::
  "SimulationVoxel list \<Rightarrow> AvailEntry list \<times> RebuildTarget option list \<Rightarrow> bool" where
  "matchInv vs st =
     (length (fst st) = length vs \<and> length (snd st) = length vs
      \<and> (\<forall>i < length vs.
            a_index (fst st ! i) = i \<and> a_color (fst st ! i) = v_color (vs ! i)
            \<and> (a_taken (fst st ! i) \<longleftrightarrow> snd st ! i \<noteq> None)
            \<and> (\<forall>t. snd st ! i = Some t \<longrightarrow> \<not> t_isRubble t)))"

definition takenSet :: "nat \<Rightarrow> AvailEntry list \<Rightarrow> nat set" where
  "takenSet n av = {i. i < n \<and> a_taken (av ! i)}"

text \<open>
  Stores and target lists on which the matcher is run below. \<open>exLoaded data\<close> is the
  engine a new engine becomes by \<^verbatim>\<open>loadInitialModel(data)\<close> on a list that is not empty.
\<close>

definition exLoaded :: "VoxelData list \<Rightarrow> Engine" where
  "exLoaded data =
     \<lparr> voxels = createVoxels data, rebuildTargets = [], rebuildStartTime = 0,
       state = STABLE, stateLog = [STABLE], countLog = [length data] \<rparr>"

definition exStore :: Engine where
  "exStore =
     exLoaded
       [\<lparr> d_x = 0, d_y = 0, d_z = 0, d_color = 0xFF0000 \<rparr>,
        \<lparr> d_x = 1, d_y = 0, d_z = 0, d_color = 0x0000FF \<rparr>]"

definition exNear :: Engine where
  "exNear =
     exLoaded
       [\<lparr> d_x = 0, d_y = 0, d_z = 0, d_color = 0x000001 \<rparr>,
        \<lparr> d_x = 1, d_y = 0, d_z = 0, d_color = 0x000000 \<rparr>]"

definition exPalette :: Engine where
  "exPalette =
     exLoaded
       [\<lparr> d_x = 0, d_y = 0, d_z = 0, d_color = 0xFF0000 \<rparr>,
        \<lparr> d_x = 1, d_y = 0, d_z = 0, d_color = 0x00FF00 \<rparr>,
        \<lparr> d_x = 2, d_y = 0, d_z = 0, d_color = 0x0000FF \<rparr>]"

definition exTargets :: "VoxelData list" where
  "exTargets =
     [\<lparr> d_x = 0, d_y = 15, d_z = 0, d_color = 0xFF0000 \<rparr>,
      \<lparr> d_x = 1, d_y = - 3, d_z = 0, d_color = 0x00FFFF \<rparr>,
      \<lparr> d_x = 2, d_y = 7.5, d_z = 0, d_color = 0x00FF00 \<rparr>,
      \<lparr> d_x = 3, d_y = 1, d_z = 0, d_color = 0x0000FF \<rparr>]"

definition exFewer :: "VoxelData list" where
  "exFewer = [\<lparr> d_x = 5, d_y = 15, d_z = 5, d_color = 0x0000FF \<rparr>]"

definition exMore :: "VoxelData list" where
  "exMore =
     [\<lparr> d_x = 0, d_y = 1, d_z = 0, d_color = 0x00FF00 \<rparr>,
      \<lparr> d_x = 0, d_y = 2, d_z = 0, d_color = 0xFF0000 \<rparr>,
      \<lparr> d_x = 0, d_y = 3, d_z = 0, d_color = 0x0000FF \<rparr>]"

section \<open>Reachable engines\<close>

text \<open>
  The engine as the constructor leaves it, and the engines the public commands and the
  frame loop lead to from there. \<^verbatim>\<open>addVoxel\<close> and \<^verbatim>\<open>removeVoxel\<close> end in
  \<^verbatim>\<open>loadInitialModel\<close> and are covered by it. A load that throws leaves the engine
  with its voxel array emptied.
\<close>

definition newEngine :: Engine where
  "newEngine =
     \<lparr> voxels = [], rebuildTargets = [], rebuildStartTime = 0, state = STABLE,
       stateLog = [], countLog = [] \<rparr>"

inductive reachable :: "real \<Rightarrow> Engine \<Rightarrow> bool" for FLOOR_Y :: real where
  created: "reachable FLOOR_Y newEngine"
| loaded: "reachable FLOOR_Y s \<Longrightarrow> loadInitialModel data s = Inr s' \<Longrightarrow> reachable FLOOR_Y s'"
| emptied: "reachable FLOOR_Y s \<Longrightarrow> loadInitialModel data s = Inl e
            \<Longrightarrow> reachable FLOOR_Y (s\<lparr> voxels := [] \<rparr>)"
| dismantled: "reachable FLOOR_Y s \<Longrightarrow> reachable FLOOR_Y (dismantle random s)"
| rebuilt: "reachable FLOOR_Y s \<Longrightarrow> reachable FLOOR_Y (rebuild FLOOR_Y now targetModel s)"
| ticked: "reachable FLOOR_Y s \<Longrightarrow> updatePhysics FLOOR_Y now s = Inr s' \<Longrightarrow> reachable FLOOR_Y s'"

section \<open>The sRGB transfer functions\<close>

lemma SRGBToLinear_zero: "SRGBToLinear 0 = 0"
  by (simp add: SRGBToLinear_def)

lemma SRGBToLinear_one: "SRGBToLinear 1 = 1"
  by (simp add: SRGBToLinear_def)

lemma SRGBToLinear_unit_range:
  assumes "0 \<le> x" "x \<le> 1"
  shows "0 \<le> SRGBToLinear x \<and> SRGBToLinear x \<le> 1"
proof (cases "x < 0.04045")
  case True
  then show ?thesis using assms by (simp add: SRGBToLinear_def)
next
  case False
  let ?y = "x * 0.9478672986 + 0.0521327014"
  have "0 \<le> ?y" "?y \<le> 1" using assms by simp_all
  then have "?y powr 2.4 \<le> 1" by (intro powr_le1) simp_all
  then show ?thesis using False by (simp add: SRGBToLinear_def)
qed

text \<open>
  Taking a channel to the linear space and back raises it to the power
  \<open>2.4 * 0.41666 = 0.999984\<close>, which changes it by a factor of at most 1.0002.
\<close>

lemma powr_near_one:
  fixes y :: real
  assumes "0.093 \<le> y" "y \<le> 1"
  shows "y \<le> (y powr 2.4) powr 0.41666" and "(y powr 2.4) powr 0.41666 \<le> y * 1.0002"
proof -
  have y: "0 < y" using assms by simp
  define u where "u = - 0.000016 * ln y"
  have e: "(y powr 2.4) powr 0.41666 = y * exp u"
  proof -
    have "(y powr 2.4) powr 0.41666 = y powr (1 + (- 0.000016))"
      by (simp add: powr_powr)
    also have "\<dots> = y powr 1 * y powr (- 0.000016)"
      by (rule powr_add)
    also have "\<dots> = y * exp u"
      using y by (simp add: powr_def u_def)
    finally show ?thesis .
  qed
  have "ln y \<le> 0" using y assms by simp
  then have u0: "0 \<le> u" by (simp add: u_def mult_nonneg_nonpos2)
  have "ln (1 / y) \<le> 1 / y - 1"
    using y by (intro ln_le_minus_one) simp
  then have "- ln y \<le> 1 / y - 1"
    using y by (simp add: ln_div)
  moreover have "1 / y \<le> 1 / 0.093"
    using assms y by (intro divide_left_mono) simp_all
  ultimately have "- ln y \<le> 10" by simp
  then have u1: "u \<le> 0.00016" by (simp add: u_def)
  have "exp u \<le> 1 + u + u\<^sup>2"
    using u0 u1 by (intro exp_bound) simp_all
  moreover have "u * u \<le> 0.00016 * 0.00016"
    using u0 u1 by (intro mult_mono) simp_all
  ultimately have up: "exp u \<le> 1.0002" using u1 by (simp add: power2_eq_square)
  have lo: "1 \<le> exp u" using u0 by simp
  show "y \<le> (y powr 2.4) powr 0.41666"
    unfolding e using lo y by simp
  show "(y powr 2.4) powr 0.41666 \<le> y * 1.0002"
    unfolding e using up y by simp
qed

lemma powr_above_threshold:
  fixes y :: real
  assumes "0.093 \<le> y"
  shows "\<not> y powr 2.4 < 0.0031308"
proof
  assume lt: "y powr 2.4 < 0.0031308"
  have y: "0 < y" using assms by simp
  have "(y powr 2.4) ^ 5 = (y powr 2.4) powr 5"
    using y by (simp add: powr_numeral [symmetric] del: powr_numeral)
  also have "\<dots> = y powr 12" by (simp add: powr_powr)
  also have "\<dots> = y ^ 12" using y by simp
  finally have p: "(y powr 2.4) ^ 5 = y ^ 12" .
  have a: "(0.093::real) ^ 12 \<le> y ^ 12"
    using assms by (intro power_mono) simp_all
  have b: "(0.0031308::real) ^ 5 < 0.093 ^ 12"
    by (simp add: power_divide divide_simps)
  have c: "(y powr 2.4) ^ 5 \<le> 0.0031308 ^ 5"
    using lt by (intro power_mono) simp_all
  have "(y powr 2.4) ^ 5 < y ^ 12"
    by (rule less_le_trans [OF le_less_trans [OF c b] a])
  then show False unfolding p by simp
qed


lemma round_near:
  fixes v :: real and k :: int
  assumes "0 \<le> k" "k \<le> 255" "real_of_int k - 0.4 \<le> v" "v \<le> real_of_int k + 0.4"
  shows "Math_round (clamp v 0 255) = k"
proof -
  have "real_of_int k - 0.4 \<le> clamp v 0 255" "clamp v 0 255 \<le> real_of_int k + 0.4"
    using assms by (simp_all add: clamp_def max_def min_def)
  then have "real_of_int k \<le> clamp v 0 255 + 1 / 2" "clamp v 0 255 + 1 / 2 < real_of_int k + 1"
    by simp_all
  then show ?thesis unfolding Math_round_def by (simp add: floor_eq_iff)
qed

lemma srgb_round_trip:
  assumes "0 \<le> k" "k \<le> 255"
  shows "Math_round (clamp (LinearToSRGB (SRGBToLinear (real_of_int k / 255)) * 255) 0 255) = k"
proof (cases "k \<le> 10")
  case True
  let ?x = "real_of_int k / 255"
  have x: "?x < 0.04045" using True by simp
  have k: "0 \<le> real_of_int k" "real_of_int k \<le> 10" using assms True by simp_all
  have c: "SRGBToLinear ?x = ?x * 0.0773993808"
    using x by (simp only: SRGBToLinear_def if_True)
  have "?x * 0.0773993808 < 0.0031308" using k by simp
  then have l: "LinearToSRGB (SRGBToLinear ?x) = ?x * 0.0773993808 * 12.92"
    unfolding c by (simp only: LinearToSRGB_def if_True)
  have "real_of_int k - 0.4 \<le> ?x * 0.0773993808 * 12.92 * 255"
    and "?x * 0.0773993808 * 12.92 * 255 \<le> real_of_int k + 0.4"
    using k by simp_all
  then show ?thesis unfolding l using assms by (intro round_near)
next
  case False
  let ?x = "real_of_int k / 255"
  let ?y = "?x * 0.9478672986 + 0.0521327014"
  have k: "11 \<le> real_of_int k" "real_of_int k \<le> 255" using assms False by simp_all
  have x: "\<not> ?x < 0.04045" using k by simp
  have y: "0.093 \<le> ?y" "?y \<le> 1" using k by simp_all
  have c: "SRGBToLinear ?x = ?y powr 2.4"
    using x by (simp only: SRGBToLinear_def if_False)
  have l: "LinearToSRGB (SRGBToLinear ?x) = 1.055 * ((?y powr 2.4) powr 0.41666) - 0.055"
    unfolding c using powr_above_threshold [OF y(1)] by (simp only: LinearToSRGB_def if_False)
  define p where "p = (?y powr 2.4) powr 0.41666"
  have p: "?y \<le> p" "p \<le> ?y * 1.0002"
    unfolding p_def using y by (rule powr_near_one)+
  have "real_of_int k - 0.4 \<le> (1.055 * p - 0.055) * 255"
    and "(1.055 * p - 0.055) * 255 \<le> real_of_int k + 0.4"
    using p k by simp_all
  then show ?thesis unfolding l p_def [symmetric] using assms by (intro round_near)
qed

section \<open>Comparing colour distances\<close>

lemma getColorDist_sqrt: "getColorDist c h = sqrt (colorDistSq c h)"
  by (simp add: getColorDist_def colorDistSq_def Let_def)

lemma colorDistSq_nonneg: "0 \<le> colorDistSq c h"
  by (simp add: colorDistSq_def Let_def)

lemma getColorDist_nonneg: "0 \<le> getColorDist c h"
  by (simp add: getColorDist_sqrt colorDistSq_nonneg)

lemma getColorDist_less_const:
  assumes "0 < e"
  shows "getColorDist c h < e \<longleftrightarrow> colorDistSq c h < e\<^sup>2"
proof -
  have "sqrt (colorDistSq c h) < e \<longleftrightarrow> sqrt (colorDistSq c h) < sqrt (e\<^sup>2)"
    using assms by simp
  also have "\<dots> \<longleftrightarrow> colorDistSq c h < e\<^sup>2"
    by (rule real_sqrt_less_iff)
  finally show ?thesis by (simp add: getColorDist_sqrt)
qed

lemma getColorDist_less_dist:
  "getColorDist c h < getColorDist c' h' \<longleftrightarrow> colorDistSq c h < colorDistSq c' h'"
  by (simp add: getColorDist_sqrt)

lemma getColorDist_less_eps:
  "getColorDist c h < 0.01 \<longleftrightarrow> colorDistSq c h < 0.0001"
  using getColorDist_less_const [of "0.01" c h] by (simp add: power2_eq_square)

lemma getColorDist_less_eps_scaled:
  "getColorDist c h * 100 < 1 \<longleftrightarrow> colorDistSq c h * 10000 < 1"
  using getColorDist_less_eps [of c h] by simp

lemma getColorDist_less_init:
  "getColorDist c h < 9999 \<longleftrightarrow> colorDistSq c h < 99980001"
  using getColorDist_less_const [of 9999 c h] by (simp add: power2_eq_square)

lemmas dist_eval =
  getColorDist_less_eps getColorDist_less_eps_scaled getColorDist_less_init getColorDist_less_dist
  SRGBToLinear_def

section \<open>The early exit of the inner scan\<close>

lemma scan_eq_scanFull_from:
  "\<forall>a \<in> set av. \<not> a_taken a \<longrightarrow> \<not> getColorDist (a_color a) hex < 0.01
   \<Longrightarrow> scan hex av i bd bi = scanFull hex av i bd bi"
  by (induction av arbitrary: i bd bi) (simp_all add: Let_def)

text \<open>
  C7. When no not-yet-taken source voxel is nearer than the early-exit epsilon 0.01 to
  the target's colour, the inner scan of the matcher, with its early exit, selects the
  same source as the scan without that exit, started as the source starts it
  (\<^verbatim>\<open>bestDist = 9999\<close>, \<^verbatim>\<open>bestIdx = -1\<close>, \<^verbatim>\<open>i = 0\<close>).
\<close>

theorem early_exit_is_optimisation:
  assumes "\<forall>a \<in> set available. \<not> a_taken a \<longrightarrow> \<not> getColorDist (a_color a) hex < 0.01"
  shows "scan hex available 0 9999 None = scanFull hex available 0 9999 None"
  using assms by (rule scan_eq_scanFull_from)

text \<open>
  A red and a blue source free, a green one taken, and a green target: neither free
  source is near, and both scans settle on the blue one at index 2.
\<close>

theorem early_exit_is_optimisation_witness:
  "\<not> getColorDist (setHex 0xFF0000) 0x00FF00 < 0.01
   \<and> \<not> getColorDist (setHex 0x0000FF) 0x00FF00 < 0.01
   \<and> scan 0x00FF00 [\<lparr>a_index = 0, a_color = setHex 0xFF0000, a_taken = False\<rparr>,
               \<lparr>a_index = 1, a_color = setHex 0x00FF00, a_taken = True\<rparr>,
               \<lparr>a_index = 2, a_color = setHex 0x0000FF, a_taken = False\<rparr>] 0 9999 None
     = scanFull 0x00FF00 [\<lparr>a_index = 0, a_color = setHex 0xFF0000, a_taken = False\<rparr>,
               \<lparr>a_index = 1, a_color = setHex 0x00FF00, a_taken = True\<rparr>,
               \<lparr>a_index = 2, a_color = setHex 0x0000FF, a_taken = False\<rparr>] 0 9999 None
   \<and> scanFull 0x00FF00 [\<lparr>a_index = 0, a_color = setHex 0xFF0000, a_taken = False\<rparr>,
               \<lparr>a_index = 1, a_color = setHex 0x00FF00, a_taken = True\<rparr>,
               \<lparr>a_index = 2, a_color = setHex 0x0000FF, a_taken = False\<rparr>] 0 9999 None = Some 2"
proof -
  have h: "\<forall>a \<in> set [\<lparr>a_index = 0, a_color = setHex 0xFF0000, a_taken = False\<rparr>,
               \<lparr>a_index = 1, a_color = setHex 0x00FF00, a_taken = True\<rparr>,
               \<lparr>a_index = 2, a_color = setHex 0x0000FF, a_taken = False\<rparr>].
      \<not> a_taken a \<longrightarrow> \<not> getColorDist (a_color a) 0x00FF00 < 0.01"
    by (simp add: dist_eval colorDistSq_def setHex_def Let_def)
  have v: "scanFull 0x00FF00 [\<lparr>a_index = 0, a_color = setHex 0xFF0000, a_taken = False\<rparr>,
               \<lparr>a_index = 1, a_color = setHex 0x00FF00, a_taken = True\<rparr>,
               \<lparr>a_index = 2, a_color = setHex 0x0000FF, a_taken = False\<rparr>] 0 9999 None = Some 2"
    by (simp add: dist_eval colorDistSq_def setHex_def Let_def)
  show ?thesis
    using h v early_exit_is_optimisation [OF h] by simp
qed

section \<open>Physics integrator\<close>

lemma updatePhysics_dismantling:
  "state s = DISMANTLING \<Longrightarrow>
   updatePhysics FLOOR_Y now s = Inr (s\<lparr> voxels := map (physicsVoxel FLOOR_Y) (voxels s) \<rparr>)"
  by (simp add: updatePhysics_def)

lemma physicsVoxel_fields:
  "(let v' = physicsVoxel FLOOR_Y v; vy1 = v_vy v - 0.025; y1 = v_y v + vy1 in
      v_id v' = v_id v \<and> v_color v' = v_color v
      \<and> v_x v' = v_x v + v_vx v \<and> v_z v' = v_z v + v_vz v
      \<and> v_rx v' = v_rx v + v_rvx v \<and> v_ry v' = v_ry v + v_rvy v \<and> v_rz v' = v_rz v + v_rvz v
      \<and> (if y1 < FLOOR_Y + 0.5 then
            v_y v' = FLOOR_Y + 0.5 \<and> v_vy v' = vy1 * (- 0.5)
            \<and> v_vx v' = v_vx v * 0.9 \<and> v_vz v' = v_vz v * 0.9
            \<and> v_rvx v' = v_rvx v * 0.8 \<and> v_rvy v' = v_rvy v * 0.8 \<and> v_rvz v' = v_rvz v * 0.8
          else
            v_y v' = y1 \<and> v_vy v' = vy1 \<and> v_vx v' = v_vx v \<and> v_vz v' = v_vz v
            \<and> v_rvx v' = v_rvx v \<and> v_rvy v' = v_rvy v \<and> v_rvz v' = v_rvz v))"
  by (simp add: physicsVoxel_def Let_def)

lemma physicsVoxel_floor: "FLOOR_Y + 0.5 \<le> v_y (physicsVoxel FLOOR_Y v)"
  by (simp add: physicsVoxel_def Let_def)

text \<open>
  C4. A physics tick in the Dismantling state succeeds, stays in that state and treats
  every voxel on its own: the vertical velocity loses the gravity constant 0.025, the
  position gains the velocity (the vertical one after gravity), the rotation gains the
  angular velocity; where the new height is below \<open>FLOOR_Y + 0.5\<close> the voxel is put
  at that height, its vertical velocity is multiplied by -0.5, its horizontal
  velocities by 0.9 and its angular velocities by 0.8.
\<close>

theorem dismantling_tick:
  assumes "state s = DISMANTLING"
  shows "\<exists>s'. updatePhysics FLOOR_Y now s = Inr s'
           \<and> state s' = DISMANTLING
           \<and> length (voxels s') = length (voxels s)
           \<and> (\<forall>i < length (voxels s).
                let v = voxels s ! i; v' = voxels s' ! i;
                    vy1 = v_vy v - 0.025; y1 = v_y v + vy1
                in v' = physicsVoxel FLOOR_Y v
                   \<and> v_x v' = v_x v + v_vx v \<and> v_z v' = v_z v + v_vz v
                   \<and> v_rx v' = v_rx v + v_rvx v \<and> v_ry v' = v_ry v + v_rvy v
                   \<and> v_rz v' = v_rz v + v_rvz v
                   \<and> (if y1 < FLOOR_Y + 0.5 then
                         v_y v' = FLOOR_Y + 0.5 \<and> v_vy v' = vy1 * (- 0.5)
                         \<and> v_vx v' = v_vx v * 0.9 \<and> v_vz v' = v_vz v * 0.9
                         \<and> v_rvx v' = v_rvx v * 0.8 \<and> v_rvy v' = v_rvy v * 0.8
                         \<and> v_rvz v' = v_rvz v * 0.8
                       else
                         v_y v' = y1 \<and> v_vy v' = vy1 \<and> v_vx v' = v_vx v \<and> v_vz v' = v_vz v
                         \<and> v_rvx v' = v_rvx v \<and> v_rvy v' = v_rvy v \<and> v_rvz v' = v_rvz v))"
proof -
  let ?s' = "s\<lparr> voxels := map (physicsVoxel FLOOR_Y) (voxels s) \<rparr>"
  have 1: "updatePhysics FLOOR_Y now s = Inr ?s'"
    using assms by (rule updatePhysics_dismantling)
  have 2: "state ?s' = DISMANTLING" "length (voxels ?s') = length (voxels s)"
    using assms by simp_all
  have 3: "\<forall>i < length (voxels s).
                let v = voxels s ! i; v' = voxels ?s' ! i;
                    vy1 = v_vy v - 0.025; y1 = v_y v + vy1
                in v' = physicsVoxel FLOOR_Y v
                   \<and> v_x v' = v_x v + v_vx v \<and> v_z v' = v_z v + v_vz v
                   \<and> v_rx v' = v_rx v + v_rvx v \<and> v_ry v' = v_ry v + v_rvy v
                   \<and> v_rz v' = v_rz v + v_rvz v
                   \<and> (if y1 < FLOOR_Y + 0.5 then
                         v_y v' = FLOOR_Y + 0.5 \<and> v_vy v' = vy1 * (- 0.5)
                         \<and> v_vx v' = v_vx v * 0.9 \<and> v_vz v' = v_vz v * 0.9
                         \<and> v_rvx v' = v_rvx v * 0.8 \<and> v_rvy v' = v_rvy v * 0.8
                         \<and> v_rvz v' = v_rvz v * 0.8
                       else
                         v_y v' = y1 \<and> v_vy v' = vy1 \<and> v_vx v' = v_vx v \<and> v_vz v' = v_vz v
                         \<and> v_rvx v' = v_rvx v \<and> v_rvy v' = v_rvy v \<and> v_rvz v' = v_rvz v)"
  proof (intro allI impI)
    fix i assume i: "i < length (voxels s)"
    show "let v = voxels s ! i; v' = voxels ?s' ! i;
                    vy1 = v_vy v - 0.025; y1 = v_y v + vy1
                in v' = physicsVoxel FLOOR_Y v
                   \<and> v_x v' = v_x v + v_vx v \<and> v_z v' = v_z v + v_vz v
                   \<and> v_rx v' = v_rx v + v_rvx v \<and> v_ry v' = v_ry v + v_rvy v
                   \<and> v_rz v' = v_rz v + v_rvz v
                   \<and> (if y1 < FLOOR_Y + 0.5 then
                         v_y v' = FLOOR_Y + 0.5 \<and> v_vy v' = vy1 * (- 0.5)
                         \<and> v_vx v' = v_vx v * 0.9 \<and> v_vz v' = v_vz v * 0.9
                         \<and> v_rvx v' = v_rvx v * 0.8 \<and> v_rvy v' = v_rvy v * 0.8
                         \<and> v_rvz v' = v_rvz v * 0.8
                       else
                         v_y v' = y1 \<and> v_vy v' = vy1 \<and> v_vx v' = v_vx v \<and> v_vz v' = v_vz v
                         \<and> v_rvx v' = v_rvx v \<and> v_rvy v' = v_rvy v \<and> v_rvz v' = v_rvz v)"
      using i physicsVoxel_fields [of FLOOR_Y "voxels s ! i"] by (simp add: Let_def)
  qed
  from 1 2 3 show ?thesis by blast
qed

text \<open>One voxel that crosses the floor in the tick and one that stays above it.\<close>

theorem dismantling_tick_witness:
  "state (exEngine DISMANTLING [exVoxel 0.51 (- 0.1), exVoxel 5 0.3] []) = DISMANTLING
   \<and> (\<exists>s'. updatePhysics 0 16 (exEngine DISMANTLING [exVoxel 0.51 (- 0.1), exVoxel 5 0.3] [])
               = Inr s'
         \<and> voxels s' =
             [\<lparr> v_id = 0, v_x = 1.4, v_y = 0.5, v_z = 1.8, v_color = setHex 0xFF0000,
                 v_vx = 0.36, v_vy = 0.0625, v_vz = - 0.18, v_rx = 0.1, v_ry = 0, v_rz = - 0.1,
                 v_rvx = 0.08, v_rvy = 0, v_rvz = - 0.08 \<rparr>,
              \<lparr> v_id = 0, v_x = 1.4, v_y = 5.275, v_z = 1.8, v_color = setHex 0xFF0000,
                 v_vx = 0.4, v_vy = 0.275, v_vz = - 0.2, v_rx = 0.1, v_ry = 0, v_rz = - 0.1,
                 v_rvx = 0.1, v_rvy = 0, v_rvz = - 0.1 \<rparr>])"
proof -
  have h: "state (exEngine DISMANTLING [exVoxel 0.51 (- 0.1), exVoxel 5 0.3] []) = DISMANTLING"
    by (simp add: exEngine_def)
  have "map (physicsVoxel 0) [exVoxel 0.51 (- 0.1), exVoxel 5 0.3] =
             [\<lparr> v_id = 0, v_x = 1.4, v_y = 0.5, v_z = 1.8, v_color = setHex 0xFF0000,
                 v_vx = 0.36, v_vy = 0.0625, v_vz = - 0.18, v_rx = 0.1, v_ry = 0, v_rz = - 0.1,
                 v_rvx = 0.08, v_rvy = 0, v_rvz = - 0.08 \<rparr>,
              \<lparr> v_id = 0, v_x = 1.4, v_y = 5.275, v_z = 1.8, v_color = setHex 0xFF0000,
                 v_vx = 0.4, v_vy = 0.275, v_vz = - 0.2, v_rx = 0.1, v_ry = 0, v_rz = - 0.1,
                 v_rvx = 0.1, v_rvy = 0, v_rvz = - 0.1 \<rparr>]"
    by (simp add: physicsVoxel_def exVoxel_def Let_def)
  then show ?thesis
    using h dismantling_tick [OF h, of 0 16]
    by (simp add: updatePhysics_def exEngine_def)
qed

text \<open>
  C10. After a physics tick in the Dismantling state every voxel is at height
  \<open>FLOOR_Y + 0.5\<close> or above, whatever its position and velocity were before.
\<close>

theorem dismantling_floor_bound:
  assumes "state s = DISMANTLING"
  shows "\<exists>s'. updatePhysics FLOOR_Y now s = Inr s'
           \<and> (\<forall>v \<in> set (voxels s'). FLOOR_Y + 0.5 \<le> v_y v)"
  using assms physicsVoxel_floor [of FLOOR_Y] by (auto simp: updatePhysics_dismantling)

text \<open>The same two voxels: the first ends on the floor height 0.5, the second at 5.275.\<close>

theorem dismantling_floor_bound_witness:
  "state (exEngine DISMANTLING [exVoxel 0.51 (- 0.1), exVoxel 5 0.3] []) = DISMANTLING
   \<and> (\<exists>s'. updatePhysics 0 16 (exEngine DISMANTLING [exVoxel 0.51 (- 0.1), exVoxel 5 0.3] []) = Inr s'
         \<and> map v_y (voxels s') = [0.5, 5.275])"
proof -
  have h: "state (exEngine DISMANTLING [exVoxel 0.51 (- 0.1), exVoxel 5 0.3] []) = DISMANTLING"
    by (simp add: exEngine_def)
  have "map v_y (map (physicsVoxel 0) [exVoxel 0.51 (- 0.1), exVoxel 5 0.3]) = [0.5, 5.275]"
    by (simp add: physicsVoxel_def exVoxel_def Let_def)
  then show ?thesis
    using h dismantling_floor_bound [OF h, of 0 16]
    by (simp add: updatePhysics_def exEngine_def)
qed

section \<open>Voxel store round trip\<close>

lemma byte_round_trip:
  "Math_round (clamp (LinearToSRGB (SRGBToLinear (real_of_int (k mod 256) / 255)) * 255) 0 255)
     = k mod 256"
proof -
  have "0 \<le> k mod 256" "k mod 256 \<le> 255"
    using pos_mod_bound [of 256 k] by simp_all
  then show ?thesis by (rule srgb_round_trip)
qed

lemma bytes_recompose:
  "((h div 65536) mod 256) * 65536 + ((h div 256) mod 256) * 256 + h mod 256
     = h mod 16777216" for h :: int
proof -
  have a: "h mod 16777216 = (h div 65536 mod 256) * 65536 + h mod 65536"
    using zmod_zmult2_eq [of 256 h 65536] by simp
  have b: "h mod 65536 = (h div 256 mod 256) * 256 + h mod 256"
    using zmod_zmult2_eq [of 256 h 256] by simp
  show ?thesis using a b by simp
qed

lemma getHex_setHex: "getHex (setHex h) = h mod 16777216"
  using bytes_recompose [of h] by (simp add: getHex_def setHex_def byte_round_trip)

lemma loadInitialModel_nonempty:
  "data \<noteq> [] \<Longrightarrow>
   loadInitialModel data s =
     Inr (s\<lparr> voxels := createVoxels data,
              countLog := countLog s @ [length data],
              state := STABLE,
              stateLog := stateLog s @ [STABLE] \<rparr>)"
  by (simp add: loadInitialModel_def drawFresh_def createVoxels_def Let_def)

lemma loadInitialModel_new: "data \<noteq> [] \<Longrightarrow> loadInitialModel data newEngine = Inr (exLoaded data)"
  by (simp add: loadInitialModel_nonempty newEngine_def exLoaded_def)

lemma getVoxelData_createVoxels:
  "\<forall>d \<in> set D. 0 \<le> d_color d \<and> d_color d < 16777216 \<Longrightarrow>
   map (\<lambda>v. \<lparr> d_x = v_x v, d_y = v_y v, d_z = v_z v, d_color = getHex (v_color v) \<rparr>)
     (createVoxels D) = D"
  by (rule nth_equalityI) (simp_all add: createVoxels_def getHex_setHex)

text \<open>
  For a list \<open>D\<close> that is not empty and whose colours are 24-bit values,
  \<^verbatim>\<open>loadInitialModel(D)\<close> succeeds and \<^verbatim>\<open>getVoxelData()\<close> then gives \<open>D\<close> back: the
  same length, the same order, the same coordinates and the same colours.
\<close>

lemma load_snapshot_round_trip:
  assumes "D \<noteq> []" and "\<forall>d \<in> set D. 0 \<le> d_color d \<and> d_color d < 16777216"
  shows "\<exists>s'. loadInitialModel D s = Inr s' \<and> getVoxelData s' = D \<and> state s' = STABLE"
  using getVoxelData_createVoxels [OF assms(2)]
  by (simp add: loadInitialModel_nonempty [OF assms(1)] getVoxelData_def)

lemma load_snapshot_round_trip_example:
  "\<exists>s'. loadInitialModel
         [\<lparr> d_x = 0, d_y = 0, d_z = 0, d_color = 0xFF0000 \<rparr>,
          \<lparr> d_x = 1, d_y = 2.5, d_z = - 3, d_color = 0x00CCFF \<rparr>]
         (exEngine DISMANTLING [exVoxel 3 0] []) = Inr s'
     \<and> getVoxelData s'
         = [\<lparr> d_x = 0, d_y = 0, d_z = 0, d_color = 0xFF0000 \<rparr>,
            \<lparr> d_x = 1, d_y = 2.5, d_z = - 3, d_color = 0x00CCFF \<rparr>]"
  using load_snapshot_round_trip
    [of "[\<lparr> d_x = 0, d_y = 0, d_z = 0, d_color = 0xFF0000 \<rparr>,
          \<lparr> d_x = 1, d_y = 2.5, d_z = - 3, d_color = 0x00CCFF \<rparr>]"
        "exEngine DISMANTLING [exVoxel 3 0] []"]
  by auto

text \<open>
  C8 at the empty list. \<^verbatim>\<open>loadInitialModel([])\<close> does not return: \<^verbatim>\<open>draw()\<close> throws a
  TypeError on the mesh without colours, whatever the engine was, so no snapshot
  follows the load.
\<close>

theorem load_empty_throws: "loadInitialModel [] s = Inl TypeError"
  by (simp add: loadInitialModel_def drawFresh_def createVoxels_def Let_def)

section \<open>State machine guards\<close>

text \<open>
  C5. \<^verbatim>\<open>dismantle()\<close> outside Stable and \<^verbatim>\<open>rebuild()\<close> while Rebuilding return the
  engine as it was: state, voxels (positions, velocities, rotations), target table and
  notifications. \<^verbatim>\<open>dismantle()\<close> from Stable sets the state to Dismantling and
  notifies it.
\<close>

theorem invalid_transitions_ignored:
  "(state s \<noteq> STABLE \<longrightarrow> dismantle random s = s)
   \<and> (state s = REBUILDING \<longrightarrow> rebuild FLOOR_Y now targetModel s = s)
   \<and> (state s = STABLE \<longrightarrow>
        state (dismantle random s) = DISMANTLING
        \<and> stateLog (dismantle random s) = stateLog s @ [DISMANTLING])"
  by (simp add: dismantle_def rebuild_def)

theorem invalid_transitions_ignored_witness:
  "state (exEngine DISMANTLING [exVoxel 3 0] []) \<noteq> STABLE
   \<and> dismantle (\<lambda>k. 1 / 4) (exEngine DISMANTLING [exVoxel 3 0] [])
       = exEngine DISMANTLING [exVoxel 3 0] []
   \<and> state (exEngine REBUILDING [exVoxel 3 0] [rubbleTarget (exVoxel 3 0)]) = REBUILDING
   \<and> dismantle (\<lambda>k. 1 / 4) (exEngine REBUILDING [exVoxel 3 0] [rubbleTarget (exVoxel 3 0)])
       = exEngine REBUILDING [exVoxel 3 0] [rubbleTarget (exVoxel 3 0)]
   \<and> rebuild 0 5 [\<lparr> d_x = 0, d_y = 0, d_z = 0, d_color = 0xFF0000 \<rparr>]
         (exEngine REBUILDING [exVoxel 3 0] [rubbleTarget (exVoxel 3 0)])
       = exEngine REBUILDING [exVoxel 3 0] [rubbleTarget (exVoxel 3 0)]
   \<and> state (exEngine STABLE [exVoxel 3 0] []) = STABLE
   \<and> state (dismantle (\<lambda>k. 1 / 4) (exEngine STABLE [exVoxel 3 0] [])) = DISMANTLING"
proof -
  have a: "state (exEngine DISMANTLING [exVoxel 3 0] []) \<noteq> STABLE"
    and b: "state (exEngine REBUILDING [exVoxel 3 0] [rubbleTarget (exVoxel 3 0)]) = REBUILDING"
    and c: "state (exEngine STABLE [exVoxel 3 0] []) = STABLE"
    by (simp_all add: exEngine_def)
  show ?thesis
    using a b c
      invalid_transitions_ignored [of "exEngine DISMANTLING [exVoxel 3 0] []" "\<lambda>k. 1 / 4"]
      invalid_transitions_ignored
        [of "exEngine REBUILDING [exVoxel 3 0] [rubbleTarget (exVoxel 3 0)]" "\<lambda>k. 1 / 4" 0 5
            "[\<lparr> d_x = 0, d_y = 0, d_z = 0, d_color = 0xFF0000 \<rparr>]"]
      invalid_transitions_ignored [of "exEngine STABLE [exVoxel 3 0] []" "\<lambda>k. 1 / 4"]
    by simp
qed

section \<open>Perceptual colour distance\<close>

lemma normalized_setHex:
  "map SRGBToLinear (normalized hex) = [c_r (setHex hex), c_g (setHex hex), c_b (setHex hex)]"
  by (simp add: normalized_def setHex_def)

lemma setHex_unit_range:
  "0 \<le> c_r (setHex hex) \<and> c_r (setHex hex) \<le> 1
   \<and> 0 \<le> c_g (setHex hex) \<and> c_g (setHex hex) \<le> 1
   \<and> 0 \<le> c_b (setHex hex) \<and> c_b (setHex hex) \<le> 1"
proof -
  have "0 \<le> real_of_int (k mod 256) / 255 \<and> real_of_int (k mod 256) / 255 \<le> 1" for k :: int
    using pos_mod_bound [of 256 k] by simp
  then have "0 \<le> SRGBToLinear (real_of_int (k mod 256) / 255)
             \<and> SRGBToLinear (real_of_int (k mod 256) / 255) \<le> 1" for k :: int
    by (intro SRGBToLinear_unit_range) simp_all
  then show ?thesis by (simp add: setHex_def)
qed

text \<open>
  C6 (amended). For every source colour and every packed target colour,
  \<^verbatim>\<open>getColorDist\<close> is the Euclidean length of the three channel differences after each
  has been multiplied by its weight, 0.3 for red, 0.59 for green and 0.11 for blue:
  the weights enter the sum of squares squared. The channel values of the packed
  colour are the ones \<^verbatim>\<open>THREE.Color\<close> holds for it, the sRGB-to-linear transforms of
  its bytes over 255, and lie between 0 and 1.
\<close>

theorem color_distance_scaled_differences:
  "getColorDist c1 hex2 =
     sqrt ((0.3 * (c_r c1 - c_r (setHex hex2)))\<^sup>2
           + (0.59 * (c_g c1 - c_g (setHex hex2)))\<^sup>2
           + (0.11 * (c_b c1 - c_b (setHex hex2)))\<^sup>2)
   \<and> [c_r (setHex hex2), c_g (setHex hex2), c_b (setHex hex2)]
       = map SRGBToLinear (normalized hex2)
   \<and> list_all (\<lambda>x. 0 \<le> x \<and> x \<le> 1) (map SRGBToLinear (normalized hex2))"
  using setHex_unit_range [of hex2]
  by (simp add: normalized_setHex getColorDist_def Let_def power2_eq_square mult.commute)

text \<open>
  C6 as stated fails. Red against black: the code's distance is 0.3, the weighted
  Euclidean distance of the normalised channel values under the weights 0.3, 0.59 and
  0.11 is the square root of 0.3. And the channel the code reads for the byte
  \<open>0x0A\<close> is not the normalised byte \<open>10 / 255\<close> but its linear value.
\<close>

theorem color_distance_weights_counterexample:
  "getColorDist (setHex 0xFF0000) 0x000000 = 0.3
   \<and> weightedEuclidean lumaWeights (normalized 0xFF0000) (normalized 0x000000) = sqrt 0.3
   \<and> getColorDist (setHex 0xFF0000) 0x000000
       \<noteq> weightedEuclidean lumaWeights (normalized 0xFF0000) (normalized 0x000000)
   \<and> normalized 0x0A0000 = [10 / 255, 0, 0]
   \<and> c_r (setHex 0x0A0000) = 10 / 255 * 0.0773993808"
proof -
  have "sqrt ((3 / 10)\<^sup>2) = (3 / 10 :: real)"
    by simp
  then have d: "getColorDist (setHex 0xFF0000) 0x000000 = 0.3"
    by (simp add: getColorDist_def setHex_def SRGBToLinear_def Let_def power2_eq_square)
  have w: "weightedEuclidean lumaWeights (normalized 0xFF0000) (normalized 0x000000) = sqrt 0.3"
    by (simp add: weightedEuclidean_def lumaWeights_def normalized_def)
  have ne: "sqrt 0.3 \<noteq> (0.3 :: real)"
  proof
    assume e: "sqrt 0.3 = (0.3 :: real)"
    have "(sqrt 0.3)\<^sup>2 = (0.3 :: real)" by simp
    then have "(0.3 :: real)\<^sup>2 = 0.3" unfolding e .
    then show False by (simp add: power2_eq_square)
  qed
  have n: "normalized 0x0A0000 = [10 / 255, 0, 0]"
    by (simp add: normalized_def)
  have c: "c_r (setHex 0x0A0000) = 10 / 255 * 0.0773993808"
    by (simp add: setHex_def SRGBToLinear_def)
  show ?thesis using d w ne n c by simp
qed

section \<open>Neutral serialisation\<close>


lemma toFixed2_hundredths: "\<exists>n::int. toFixed2 v = real_of_int n / 100"
proof (cases "v < 0")
  case True
  then have "toFixed2 v = real_of_int (- \<lfloor>(- v) * 100 + 1 / 2\<rfloor>) / 100"
    by (simp add: toFixed2_def)
  then show ?thesis by blast
next
  case False
  then have "toFixed2 v = real_of_int \<lfloor>v * 100 + 1 / 2\<rfloor> / 100"
    by (simp add: toFixed2_def)
  then show ?thesis by blast
qed

lemma round_half_close: "\<bar>real_of_int \<lfloor>x * 100 + 1 / 2\<rfloor> / 100 - x\<bar> \<le> 1 / 200" for x :: real
proof -
  define n where "n = \<lfloor>x * 100 + 1 / 2\<rfloor>"
  have "real_of_int n \<le> x * 100 + 1 / 2" and "x * 100 + 1 / 2 < real_of_int n + 1"
    unfolding n_def by linarith+
  then have "\<bar>real_of_int n / 100 - x\<bar> \<le> 1 / 200"
    by linarith
  then show ?thesis by (simp only: n_def)
qed

lemma toFixed2_close: "\<bar>toFixed2 v - v\<bar> \<le> 1 / 200"
proof (cases "v < 0")
  case True
  have "\<bar>real_of_int \<lfloor>(- v) * 100 + 1 / 2\<rfloor> / 100 - (- v)\<bar> \<le> 1 / 200"
    by (rule round_half_close)
  then have "\<bar>- (real_of_int \<lfloor>(- v) * 100 + 1 / 2\<rfloor> / 100) - v\<bar> \<le> 1 / 200"
    by linarith
  then show ?thesis using True by (simp only: toFixed2_def if_True)
next
  case False
  then show ?thesis using round_half_close [of v] by (simp only: toFixed2_def if_False)
qed

declare toString16.simps [simp del]

lemma hexDigit_zero: "hexDigit 0 = CHR ''0''"
  by (simp add: hexDigit_def)

lemma hexDigit_mod: "hexDigit (n mod 16) = hexDigit n"
  by (simp add: hexDigit_def)

lemma hexDigit_in: "hexDigit n \<in> set ''0123456789abcdef''"
proof -
  have "n mod 16 < length ''0123456789abcdef''" by simp
  then show ?thesis unfolding hexDigit_def by (rule nth_mem)
qed

lemma rev_upt_Suc_shift: "map f (rev [0..<Suc k]) = map (\<lambda>j. f (Suc j)) (rev [0..<k]) @ [f 0]"
proof -
  have "[0..<Suc k] = 0 # map Suc [0..<k]"
    by (simp add: upt_conv_Cons map_Suc_upt del: upt_Suc)
  then show ?thesis by (simp add: rev_map comp_def del: upt_Suc)
qed

lemma toString16_pad:
  "n < 16 ^ k \<Longrightarrow> 0 < k \<Longrightarrow>
   length (toString16 n) \<le> k
   \<and> replicate (k - length (toString16 n)) (CHR ''0'') @ toString16 n
       = map (\<lambda>j. hexDigit (n div 16 ^ j mod 16)) (rev [0..<k])"
proof (induction k arbitrary: n)
  case 0
  then show ?case by simp
next
  case (Suc k)
  show ?case
  proof (cases "n < 16")
    case True
    then have t: "toString16 n = [hexDigit n]"
      by (subst toString16.simps) simp
    have "map (\<lambda>j. hexDigit (n div 16 ^ Suc j mod 16)) (rev [0..<k])
            = map (\<lambda>j. CHR ''0'') (rev [0..<k])"
      using True by (intro map_cong) (simp_all add: div_mult2_eq hexDigit_zero)
    also have "\<dots> = replicate k (CHR ''0'')"
      by (simp add: map_replicate_const)
    finally show ?thesis
      using t by (simp add: rev_upt_Suc_shift hexDigit_mod del: upt_Suc power_Suc)
  next
    case False
    then have t: "toString16 n = toString16 (n div 16) @ [hexDigit (n mod 16)]"
      by (subst toString16.simps) simp
    from False Suc.prems have k: "0 < k"
      by (cases k) simp_all
    from Suc.prems have "n div 16 < 16 ^ k"
      by (simp add: less_mult_imp_div_less mult.commute)
    from Suc.IH [OF this k] show ?thesis
      using t by (simp add: rev_upt_Suc_shift div_mult2_eq Suc_diff_le del: upt_Suc)
  qed
qed

lemma Math_round_clamp_range:
  "0 \<le> Math_round (clamp x 0 255) \<and> Math_round (clamp x 0 255) \<le> 255"
proof -
  have "0 \<le> clamp x 0 255" "clamp x 0 255 \<le> 255"
    by (simp_all add: clamp_def)
  then show ?thesis unfolding Math_round_def by (simp add: le_floor_iff floor_le_iff)
qed

lemma getHex_range: "0 \<le> getHex c \<and> getHex c < 16777216"
  using Math_round_clamp_range [of "LinearToSRGB (c_r c) * 255"]
    Math_round_clamp_range [of "LinearToSRGB (c_g c) * 255"]
    Math_round_clamp_range [of "LinearToSRGB (c_b c) * 255"]
  by (simp add: getHex_def)

lemma slice_pad:
  "length t \<le> length p \<Longrightarrow>
   (let s = p @ t in drop (length s - length p) s) = drop (length t) p @ t"
  by (simp add: Let_def)

lemma getHexString_digits:
  "getHexString c = map (\<lambda>j. hexDigit (nat (getHex c) div 16 ^ j mod 16)) [5, 4, 3, 2, 1, 0]"
proof -
  let ?n = "nat (getHex c)"
  have "?n < 16777216" using getHex_range [of c] by linarith
  then have "?n < 16 ^ 6" by simp
  from toString16_pad [OF this] have
    len: "length (toString16 ?n) \<le> 6" and
    pad: "replicate (6 - length (toString16 ?n)) (CHR ''0'') @ toString16 ?n
            = map (\<lambda>j. hexDigit (?n div 16 ^ j mod 16)) (rev [0..<6])"
    by simp_all
  have z: "''000000'' = replicate 6 (CHR ''0'')"
    by (simp add: numeral_eq_Suc)
  have "getHexString c =
          (let s = ''000000'' @ toString16 ?n in drop (length s - length ''000000'') s)"
    by (simp add: getHexString_def)
  also have "\<dots> = drop (length (toString16 ?n)) ''000000'' @ toString16 ?n"
    using len by (intro slice_pad) simp
  also have "\<dots> = replicate (6 - length (toString16 ?n)) (CHR ''0'') @ toString16 ?n"
    by (simp only: z drop_replicate)
  also have "\<dots> = map (\<lambda>j. hexDigit (?n div 16 ^ j mod 16)) (rev [0..<6])"
    by (rule pad)
  also have "rev [0..<6] = [5, 4, 3, 2, 1, 0::nat]"
    by (simp add: upt_rec)
  finally show ?thesis .
qed


lemma getHexString_shape:
  "length (getHexString c) = 6 \<and> set (getHexString c) \<subseteq> set ''0123456789abcdef''"
proof -
  have "set (map (\<lambda>j. hexDigit (nat (getHex c) div 16 ^ j mod 16)) [5, 4, 3, 2, 1, 0::nat])
          \<subseteq> set ''0123456789abcdef''"
    unfolding set_map by (rule image_subsetI) (rule hexDigit_in)
  then show ?thesis by (simp only: getHexString_digits length_map) simp
qed

lemma getJsonData_nth:
  "i < length (voxels s) \<Longrightarrow>
   getJsonData s ! i =
     \<lparr> j_id = i, j_x = toFixed2 (v_x (voxels s ! i)), j_y = toFixed2 (v_y (voxels s ! i)),
       j_z = toFixed2 (v_z (voxels s ! i)),
       j_c = CHR ''#'' # getHexString (v_color (voxels s ! i)) \<rparr>"
  by (simp add: getJsonData_def)

text \<open>
  C9. The serialisation lists one record per voxel, in index order: its \<open>id\<close> is the
  index, each coordinate is the voxel's coordinate rounded to two decimal places (a
  whole number of hundredths, at most half a hundredth away), and the colour string is
  \<open>#\<close> followed by the six hexadecimal digits of the voxel's packed colour, most
  significant first.
\<close>

theorem json_records:
  "length (getJsonData s) = length (voxels s)
   \<and> (\<forall>i < length (voxels s).
        let v = voxels s ! i; r = getJsonData s ! i in
          j_id r = i
          \<and> j_x r = toFixed2 (v_x v) \<and> (\<exists>n::int. j_x r = real_of_int n / 100)
          \<and> \<bar>j_x r - v_x v\<bar> \<le> 1 / 200
          \<and> j_y r = toFixed2 (v_y v) \<and> (\<exists>n::int. j_y r = real_of_int n / 100)
          \<and> \<bar>j_y r - v_y v\<bar> \<le> 1 / 200
          \<and> j_z r = toFixed2 (v_z v) \<and> (\<exists>n::int. j_z r = real_of_int n / 100)
          \<and> \<bar>j_z r - v_z v\<bar> \<le> 1 / 200
          \<and> j_c r = CHR ''#'' #
                map (\<lambda>k. hexDigit (nat (getHex (v_color v)) div 16 ^ k mod 16)) [5, 4, 3, 2, 1, 0]
          \<and> length (j_c r) = 7
          \<and> set (tl (j_c r)) \<subseteq> set ''0123456789abcdef'')"
proof (intro conjI allI impI)
  show "length (getJsonData s) = length (voxels s)"
    by (simp add: getJsonData_def)
next
  fix i assume i: "i < length (voxels s)"
  let ?v = "voxels s ! i"
  note r = getJsonData_nth [OF i]
  have c: "getHexString (v_color ?v)
             = map (\<lambda>k. hexDigit (nat (getHex (v_color ?v)) div 16 ^ k mod 16)) [5, 4, 3, 2, 1, 0]"
    by (rule getHexString_digits)
  show "let v = voxels s ! i; r = getJsonData s ! i in
          j_id r = i
          \<and> j_x r = toFixed2 (v_x v) \<and> (\<exists>n::int. j_x r = real_of_int n / 100)
          \<and> \<bar>j_x r - v_x v\<bar> \<le> 1 / 200
          \<and> j_y r = toFixed2 (v_y v) \<and> (\<exists>n::int. j_y r = real_of_int n / 100)
          \<and> \<bar>j_y r - v_y v\<bar> \<le> 1 / 200
          \<and> j_z r = toFixed2 (v_z v) \<and> (\<exists>n::int. j_z r = real_of_int n / 100)
          \<and> \<bar>j_z r - v_z v\<bar> \<le> 1 / 200
          \<and> j_c r = CHR ''#'' #
                map (\<lambda>k. hexDigit (nat (getHex (v_color v)) div 16 ^ k mod 16)) [5, 4, 3, 2, 1, 0]
          \<and> length (j_c r) = 7
          \<and> set (tl (j_c r)) \<subseteq> set ''0123456789abcdef''"
    unfolding Let_def r
    using toFixed2_hundredths [of "v_x ?v"] toFixed2_hundredths [of "v_y ?v"]
      toFixed2_hundredths [of "v_z ?v"] toFixed2_close [of "v_x ?v"] toFixed2_close [of "v_y ?v"]
      toFixed2_close [of "v_z ?v"] getHexString_shape [of "v_color ?v"] c
    by (simp del: set_simps)
qed

text \<open>Two voxels with coordinates that round up, round down and round a tie away from zero.\<close>

theorem json_records_witness:
  "\<exists>s. loadInitialModel
         [\<lparr> d_x = 1.005, d_y = - 2.337, d_z = 0, d_color = 0xFF0000 \<rparr>,
          \<lparr> d_x = 12, d_y = 0.004, d_z = - 0.005, d_color = 0x00CCFF \<rparr>]
         (exEngine STABLE [] []) = Inr s
     \<and> getJsonData s
         = [\<lparr> j_id = 0, j_x = 1.01, j_y = - 2.34, j_z = 0, j_c = ''#ff0000'' \<rparr>,
            \<lparr> j_id = 1, j_x = 12, j_y = 0, j_z = - 0.01, j_c = ''#00ccff'' \<rparr>]"
proof -
  let ?D = "[\<lparr> d_x = 1.005, d_y = - 2.337, d_z = 0, d_color = 0xFF0000 \<rparr>,
          \<lparr> d_x = 12, d_y = 0.004, d_z = - 0.005, d_color = 0x00CCFF \<rparr>]"
  let ?s = "(exEngine STABLE [] [])\<lparr> voxels := createVoxels ?D,
              countLog := countLog (exEngine STABLE [] []) @ [length ?D],
              state := STABLE,
              stateLog := stateLog (exEngine STABLE [] []) @ [STABLE] \<rparr>"
  have ld: "loadInitialModel ?D (exEngine STABLE [] []) = Inr ?s"
    by (rule loadInitialModel_nonempty) simp
  have val: "getJsonData ?s
     = [\<lparr> j_id = 0, j_x = 1.01, j_y = - 2.34, j_z = 0, j_c = ''#ff0000'' \<rparr>,
        \<lparr> j_id = 1, j_x = 12, j_y = 0, j_z = - 0.01, j_c = ''#00ccff'' \<rparr>]"
    by (simp add: getJsonData_def createVoxels_def toFixed2_def
        getHexString_digits getHex_setHex hexDigit_def)
  from json_records [of ?s] have "length (getJsonData ?s) = length (voxels ?s)"
    by (rule conjunct1)
  with val ld show ?thesis by blast
qed

section \<open>Reassembly animator\<close>

lemma animateVoxel_rubble: "t_isRubble t \<Longrightarrow> animateVoxel elapsed v t = (v, True)"
  by (simp add: animateVoxel_def)

lemma animateVoxel_waiting:
  "\<not> t_isRubble t \<Longrightarrow> elapsed < t_delay t \<Longrightarrow> animateVoxel elapsed v t = (v, False)"
  by (simp add: animateVoxel_def)

lemma animateVoxel_easing:
  "\<not> t_isRubble t \<Longrightarrow> \<not> elapsed < t_delay t \<Longrightarrow> distSqAfterEase v t > 0.01 \<Longrightarrow>
   animateVoxel elapsed v t =
     (v\<lparr> v_x := v_x v + (t_x t - v_x v) * 0.12, v_y := v_y v + (t_y t - v_y v) * 0.12,
         v_z := v_z v + (t_z t - v_z v) * 0.12, v_rx := v_rx v + (0 - v_rx v) * 0.12,
         v_ry := v_ry v + (0 - v_ry v) * 0.12, v_rz := v_rz v + (0 - v_rz v) * 0.12 \<rparr>, False)"
  by (simp add: animateVoxel_def distSqAfterEase_def Let_def)

lemma animateVoxel_snap:
  "\<not> t_isRubble t \<Longrightarrow> \<not> elapsed < t_delay t \<Longrightarrow> \<not> distSqAfterEase v t > 0.01 \<Longrightarrow>
   animateVoxel elapsed v t =
     (v\<lparr> v_x := t_x t, v_y := t_y t, v_z := t_z t, v_rx := 0, v_ry := 0, v_rz := 0 \<rparr>, True)"
  by (simp add: animateVoxel_def distSqAfterEase_def Let_def)

lemma animateVoxel_done:
  "snd (animateVoxel elapsed v t) \<longleftrightarrow> t_isRubble t \<or> converged elapsed v t"
  by (simp add: animateVoxel_def distSqAfterEase_def converged_def Let_def)

lemma updatePhysics_rebuilding:
  assumes "state s = REBUILDING" and "length (voxels s) \<le> length (rebuildTargets s)"
  shows "updatePhysics FLOOR_Y now s =
           Inr (let elapsed = real_of_int (now - rebuildStartTime s);
                    res = map (\<lambda>(v, t). animateVoxel elapsed v t) (zip (voxels s) (rebuildTargets s));
                    s1 = s\<lparr> voxels := map fst res \<rparr>
                in if list_all snd res
                   then s1\<lparr> state := STABLE, stateLog := stateLog s1 @ [STABLE] \<rparr> else s1)"
  using assms by (simp add: updatePhysics_def Let_def)

lemma all_done_iff:
  assumes "length vs \<le> length ts"
  shows "list_all snd (map (\<lambda>(v, t). animateVoxel e v t) (zip vs ts))
           \<longleftrightarrow> (\<forall>i < length vs. t_isRubble (ts ! i) \<or> converged e (vs ! i) (ts ! i))"
  using assms by (simp add: list_all_length animateVoxel_done)

text \<open>
  C2. An animator tick in the Rebuilding state, with a target entry for every voxel,
  succeeds and keeps the target table. A rubble voxel is left as it is. A non-rubble
  voxel whose delay has not passed does not move and keeps the state Rebuilding.
  Otherwise position and rotation are eased by the step 0.12 per axis, towards the
  target and towards zero; when the squared distance to the target is then below 0.01
  (or equal to it) the voxel is put on the target with its rotation zero, and when it
  is above 0.01 the eased voxel stays and keeps the state Rebuilding. The state after
  the tick is Stable exactly when every non-rubble voxel has converged, and Rebuilding
  otherwise.
\<close>

theorem rebuilding_tick:
  assumes "state s = REBUILDING" and "length (voxels s) \<le> length (rebuildTargets s)"
  shows "\<exists>s'. updatePhysics FLOOR_Y now s = Inr s'
           \<and> length (voxels s') = length (voxels s)
           \<and> rebuildTargets s' = rebuildTargets s
           \<and> (\<forall>i < length (voxels s).
                let v = voxels s ! i; t = rebuildTargets s ! i; v' = voxels s' ! i;
                    elapsed = real_of_int (now - rebuildStartTime s)
                in (t_isRubble t \<longrightarrow> v' = v)
                   \<and> (\<not> t_isRubble t \<and> elapsed < t_delay t \<longrightarrow>
                        v' = v \<and> state s' = REBUILDING)
                   \<and> (\<not> t_isRubble t \<and> \<not> elapsed < t_delay t \<and> distSqAfterEase v t > 0.01 \<longrightarrow>
                        v' = v\<lparr> v_x := v_x v + (t_x t - v_x v) * 0.12,
                                v_y := v_y v + (t_y t - v_y v) * 0.12,
                                v_z := v_z v + (t_z t - v_z v) * 0.12,
                                v_rx := v_rx v + (0 - v_rx v) * 0.12,
                                v_ry := v_ry v + (0 - v_ry v) * 0.12,
                                v_rz := v_rz v + (0 - v_rz v) * 0.12 \<rparr>
                        \<and> state s' = REBUILDING)
                   \<and> (\<not> t_isRubble t \<and> \<not> elapsed < t_delay t \<and> distSqAfterEase v t < 0.01 \<longrightarrow>
                        v' = v\<lparr> v_x := t_x t, v_y := t_y t, v_z := t_z t,
                                v_rx := 0, v_ry := 0, v_rz := 0 \<rparr>)
                   \<and> (converged elapsed v t \<longleftrightarrow>
                        \<not> elapsed < t_delay t \<and> distSqAfterEase v t \<le> 0.01)
                   \<and> (\<not> t_isRubble t \<and> converged elapsed v t \<longrightarrow>
                        v' = v\<lparr> v_x := t_x t, v_y := t_y t, v_z := t_z t,
                                v_rx := 0, v_ry := 0, v_rz := 0 \<rparr>))
           \<and> (state s' = STABLE \<longleftrightarrow>
                (\<forall>i < length (voxels s).
                   \<not> t_isRubble (rebuildTargets s ! i) \<longrightarrow>
                   converged (real_of_int (now - rebuildStartTime s))
                     (voxels s ! i) (rebuildTargets s ! i)))
           \<and> (state s' = STABLE \<or> state s' = REBUILDING)
           \<and> stateLog s' = (if state s' = STABLE then stateLog s @ [STABLE] else stateLog s)"
proof -
  let ?e = "real_of_int (now - rebuildStartTime s)"
  let ?res = "map (\<lambda>(v, t). animateVoxel ?e v t) (zip (voxels s) (rebuildTargets s))"
  let ?done = "\<forall>i < length (voxels s). t_isRubble (rebuildTargets s ! i)
                  \<or> converged ?e (voxels s ! i) (rebuildTargets s ! i)"
  let ?s1 = "s\<lparr> voxels := map fst ?res \<rparr>"
  let ?s' = "if list_all snd ?res
             then ?s1\<lparr> state := STABLE, stateLog := stateLog ?s1 @ [STABLE] \<rparr> else ?s1"
  have run: "updatePhysics FLOOR_Y now s = Inr ?s'"
    using assms by (simp add: updatePhysics_rebuilding Let_def)
  have dn: "list_all snd ?res \<longleftrightarrow> ?done"
    using assms(2) by (rule all_done_iff)
  have vox: "voxels ?s' = map fst ?res" by simp
  have nth: "voxels ?s' ! i = fst (animateVoxel ?e (voxels s ! i) (rebuildTargets s ! i))"
    if "i < length (voxels s)" for i
    using that assms(2) by (simp add: vox)
  have st: "state ?s' = (if ?done then STABLE else REBUILDING)"
    using assms(1) dn by simp
  have blocks: "state ?s' = REBUILDING"
    if "i < length (voxels s)" "\<not> t_isRubble (rebuildTargets s ! i)"
       "\<not> converged ?e (voxels s ! i) (rebuildTargets s ! i)" for i
    using that st by auto
  have per: "let v = voxels s ! i; t = rebuildTargets s ! i; v' = voxels ?s' ! i;
                    elapsed = ?e
                in (t_isRubble t \<longrightarrow> v' = v)
                   \<and> (\<not> t_isRubble t \<and> elapsed < t_delay t \<longrightarrow>
                        v' = v \<and> state ?s' = REBUILDING)
                   \<and> (\<not> t_isRubble t \<and> \<not> elapsed < t_delay t \<and> distSqAfterEase v t > 0.01 \<longrightarrow>
                        v' = v\<lparr> v_x := v_x v + (t_x t - v_x v) * 0.12,
                                v_y := v_y v + (t_y t - v_y v) * 0.12,
                                v_z := v_z v + (t_z t - v_z v) * 0.12,
                                v_rx := v_rx v + (0 - v_rx v) * 0.12,
                                v_ry := v_ry v + (0 - v_ry v) * 0.12,
                                v_rz := v_rz v + (0 - v_rz v) * 0.12 \<rparr>
                        \<and> state ?s' = REBUILDING)
                   \<and> (\<not> t_isRubble t \<and> \<not> elapsed < t_delay t \<and> distSqAfterEase v t < 0.01 \<longrightarrow>
                        v' = v\<lparr> v_x := t_x t, v_y := t_y t, v_z := t_z t,
                                v_rx := 0, v_ry := 0, v_rz := 0 \<rparr>)
                   \<and> (converged elapsed v t \<longleftrightarrow>
                        \<not> elapsed < t_delay t \<and> distSqAfterEase v t \<le> 0.01)
                   \<and> (\<not> t_isRubble t \<and> converged elapsed v t \<longrightarrow>
                        v' = v\<lparr> v_x := t_x t, v_y := t_y t, v_z := t_z t,
                                v_rx := 0, v_ry := 0, v_rz := 0 \<rparr>)"
    if i: "i < length (voxels s)" for i
  proof -
    let ?v = "voxels s ! i" and ?t = "rebuildTargets s ! i"
    have r1: "t_isRubble ?t \<Longrightarrow> fst (animateVoxel ?e ?v ?t) = ?v"
      by (simp add: animateVoxel_rubble)
    have r2: "\<not> t_isRubble ?t \<Longrightarrow> ?e < t_delay ?t \<Longrightarrow> fst (animateVoxel ?e ?v ?t) = ?v"
      by (simp add: animateVoxel_waiting)
    have r2s: "\<not> t_isRubble ?t \<Longrightarrow> ?e < t_delay ?t \<Longrightarrow> state ?s' = REBUILDING"
      using blocks [OF i] by (simp add: converged_def)
    have r3: "\<not> t_isRubble ?t \<Longrightarrow> \<not> ?e < t_delay ?t \<Longrightarrow> distSqAfterEase ?v ?t > 0.01 \<Longrightarrow>
             fst (animateVoxel ?e ?v ?t) = ?v\<lparr> v_x := v_x ?v + (t_x ?t - v_x ?v) * 0.12,
                                v_y := v_y ?v + (t_y ?t - v_y ?v) * 0.12,
                                v_z := v_z ?v + (t_z ?t - v_z ?v) * 0.12,
                                v_rx := v_rx ?v + (0 - v_rx ?v) * 0.12,
                                v_ry := v_ry ?v + (0 - v_ry ?v) * 0.12,
                                v_rz := v_rz ?v + (0 - v_rz ?v) * 0.12 \<rparr>"
      by (simp add: animateVoxel_easing)
    have r3s: "\<not> t_isRubble ?t \<Longrightarrow> distSqAfterEase ?v ?t > 0.01 \<Longrightarrow> state ?s' = REBUILDING"
      using blocks [OF i] by (simp add: converged_def)
    have r4: "\<not> t_isRubble ?t \<Longrightarrow> \<not> ?e < t_delay ?t \<Longrightarrow> \<not> distSqAfterEase ?v ?t > 0.01 \<Longrightarrow>
             fst (animateVoxel ?e ?v ?t) = ?v\<lparr> v_x := t_x ?t, v_y := t_y ?t, v_z := t_z ?t,
                                v_rx := 0, v_ry := 0, v_rz := 0 \<rparr>"
      by (simp add: animateVoxel_snap)
    have r5: "converged ?e ?v ?t \<longleftrightarrow> \<not> ?e < t_delay ?t \<and> distSqAfterEase ?v ?t \<le> 0.01"
      by (auto simp: converged_def)
    show ?thesis
      using r1 r2 r2s r3 r3s r4 r5 unfolding Let_def nth [OF i] by (auto simp only: converged_def)
  qed
  have stable: "state ?s' = STABLE \<longleftrightarrow>
                (\<forall>i < length (voxels s).
                   \<not> t_isRubble (rebuildTargets s ! i) \<longrightarrow>
                   converged ?e (voxels s ! i) (rebuildTargets s ! i))"
    using st by auto
  have either: "state ?s' = STABLE \<or> state ?s' = REBUILDING"
    using st by auto
  have log: "stateLog ?s' = (if state ?s' = STABLE then stateLog s @ [STABLE] else stateLog s)"
    using assms(1) by simp
  have len: "length (voxels ?s') = length (voxels s)"
    using assms(2) by simp
  have tg: "rebuildTargets ?s' = rebuildTargets s" by simp
  show ?thesis
    using run len tg per stable either log by blast
qed


text \<open>
  At 100 ms the first engine keeps its rubble and its waiting voxel, eases the third
  and stays in Rebuilding; the second snaps its voxel onto the target and becomes
  Stable.
\<close>

theorem rebuilding_tick_witness:
  "state exRebuildingA = REBUILDING
   \<and> length (voxels exRebuildingA) \<le> length (rebuildTargets exRebuildingA)
   \<and> (\<exists>s'. updatePhysics 0 100 exRebuildingA = Inr s'
          \<and> voxels s' = [exVoxel 3 0, exVoxel 0.5 0, (exVoxel 1.7 0)\<lparr> v_rx := 0.88 \<rparr>]
          \<and> state s' = REBUILDING)
   \<and> state exRebuildingB = REBUILDING
   \<and> length (voxels exRebuildingB) \<le> length (rebuildTargets exRebuildingB)
   \<and> (\<exists>s'. updatePhysics 0 100 exRebuildingB = Inr s'
          \<and> voxels s' = [exVoxel 3 0, exVoxel 0.5 0]
          \<and> state s' = STABLE)"
proof -
  have a: "state exRebuildingA = REBUILDING"
    and la: "length (voxels exRebuildingA) \<le> length (rebuildTargets exRebuildingA)"
    and b: "state exRebuildingB = REBUILDING"
    and lb: "length (voxels exRebuildingB) \<le> length (rebuildTargets exRebuildingB)"
    by (simp_all add: exRebuildingA_def exRebuildingB_def exEngine_def)
  have ra: "updatePhysics 0 100 exRebuildingA =
      Inr (exRebuildingA\<lparr> voxels :=
             [exVoxel 3 0, exVoxel 0.5 0, (exVoxel 1.7 0)\<lparr> v_rx := 0.88 \<rparr>] \<rparr>)"
    by (simp add: updatePhysics_def exRebuildingA_def exEngine_def animateVoxel_def
        rubbleTarget_def exVoxel_def Let_def power2_eq_square)
  have rb: "updatePhysics 0 100 exRebuildingB =
      Inr (exRebuildingB\<lparr> voxels := [exVoxel 3 0, exVoxel 0.5 0],
             state := STABLE, stateLog := [STABLE] \<rparr>)"
    by (simp add: updatePhysics_def exRebuildingB_def exEngine_def animateVoxel_def
        rubbleTarget_def exVoxel_def Let_def power2_eq_square)
  show ?thesis
    using a la b lb rebuilding_tick [OF a la, of 0 100] rebuilding_tick [OF b lb, of 0 100]
    by (simp only: ra rb) simp
qed

section \<open>The inner scan of the matcher\<close>

lemma validColor_setHex: "validColor (setHex hex)"
  using setHex_unit_range [of hex] by (simp add: validColor_def)

lemma scaled_diff_sq_bound:
  fixes a b w :: real
  assumes "0 \<le> a" "a \<le> 1" "0 \<le> b" "b \<le> 1" "0 \<le> w" "w \<le> 1"
  shows "((a - b) * w) * ((a - b) * w) \<le> 1"
proof -
  have "\<bar>(a - b) * w\<bar> \<le> 1"
    using assms by (simp add: abs_mult mult_le_one abs_le_iff)
  then have "((a - b) * w)\<^sup>2 \<le> 1"
    by (simp add: abs_square_le_1)
  then show ?thesis by (simp add: power2_eq_square)
qed

lemma validColor_dist_bound:
  assumes "validColor c"
  shows "getColorDist c hex < 9999"
proof -
  let ?c2 = "setHex hex"
  have r: "((c_r c - c_r ?c2) * 0.3) * ((c_r c - c_r ?c2) * 0.3) \<le> 1"
    and g: "((c_g c - c_g ?c2) * 0.59) * ((c_g c - c_g ?c2) * 0.59) \<le> 1"
    and b: "((c_b c - c_b ?c2) * 0.11) * ((c_b c - c_b ?c2) * 0.11) \<le> 1"
    using assms setHex_unit_range [of hex]
    by (auto simp only: validColor_def intro!: scaled_diff_sq_bound) simp_all
  have "colorDistSq c hex \<le> 3"
    using r g b unfolding colorDistSq_def Let_def by linarith
  then show ?thesis by (simp add: getColorDist_less_init)
qed

lemma scan_acc_Some: "\<exists>y. scan hex av i bd (Some k) = Some y"
  by (induction av arbitrary: i bd k) (simp_all add: Let_def)

lemma scan_None_iff:
  "scan hex av i bd None = None \<longleftrightarrow>
     (\<forall>a \<in> set av. a_taken a \<or> \<not> getColorDist (a_color a) hex < bd)"
proof (induction av arbitrary: i bd)
  case Nil
  then show ?case by simp
next
  case (Cons a as)
  show ?case
  proof (cases "\<not> a_taken a \<and> getColorDist (a_color a) hex < bd")
    case True
    then have "scan hex (a # as) i bd None \<noteq> None"
      by (simp add: Let_def scan_acc_Some)
    with True show ?thesis by auto
  next
    case False
    then have "scan hex (a # as) i bd None = scan hex as (Suc i) bd None"
      by (auto simp: Let_def)
    with False Cons.IH show ?thesis by auto
  qed
qed

lemma scan_result_free:
  "scan hex av i bd bi = Some k \<Longrightarrow>
   bi = Some k \<or> (i \<le> k \<and> k < i + length av \<and> \<not> a_taken (av ! (k - i)))"
proof (induction av arbitrary: i bd bi)
  case Nil
  then show ?case by simp
next
  case (Cons a as)
  let ?d = "getColorDist (a_color a) hex"
  consider (skip) "a_taken a \<or> \<not> ?d < bd" | (exit) "\<not> a_taken a" "?d < bd" "?d < 0.01"
    | (better) "\<not> a_taken a" "?d < bd" "\<not> ?d < 0.01"
    by blast
  then show ?case
  proof cases
    case skip
    then have "scan hex as (Suc i) bd bi = Some k"
      using Cons.prems by (auto simp: Let_def split: if_splits)
    from Cons.IH [OF this] show ?thesis
      by (auto simp: nth_Cons')
  next
    case exit
    then have "k = i" using Cons.prems by (simp add: Let_def)
    with exit show ?thesis by simp
  next
    case better
    then have "scan hex as (Suc i) ?d (Some i) = Some k"
      using Cons.prems by (simp add: Let_def)
    from Cons.IH [OF this] better show ?thesis
      by (auto simp: nth_Cons')
  qed
qed

lemma scan_first_near:
  "k < length av \<Longrightarrow> \<not> a_taken (av ! k) \<Longrightarrow> getColorDist (a_color (av ! k)) hex < 0.01 \<Longrightarrow>
   (\<forall>j < k. a_taken (av ! j) \<or> \<not> getColorDist (a_color (av ! j)) hex < 0.01) \<Longrightarrow>
   0.01 \<le> bd \<Longrightarrow> scan hex av i bd bi = Some (i + k)"
proof (induction av arbitrary: i bd bi k)
  case Nil
  then show ?case by simp
next
  case (Cons a as)
  show ?case
  proof (cases k)
    case 0
    with Cons.prems show ?thesis by (simp add: Let_def)
  next
    case (Suc k')
    have k': "k' < length as" "\<not> a_taken (as ! k')" "getColorDist (a_color (as ! k')) hex < 0.01"
      using Cons.prems Suc by simp_all
    have before: "\<forall>j < k'. a_taken (as ! j) \<or> \<not> getColorDist (a_color (as ! j)) hex < 0.01"
      using Cons.prems(4) Suc by auto
    have a: "a_taken a \<or> \<not> getColorDist (a_color a) hex < 0.01"
      using Cons.prems(4) Suc by auto
    have step: "scan hex as (Suc i) bd' bi' = Some (Suc i + k')" if "0.01 \<le> bd'" for bd' bi'
      using Cons.IH [OF k' before that] .
    show ?thesis
    proof (cases "a_taken a")
      case True
      then show ?thesis using step [OF Cons.prems(5)] Suc by simp
    next
      case False
      with a have far: "0.01 \<le> getColorDist (a_color a) hex" by simp
      show ?thesis
        using False far step [OF far] step [OF Cons.prems(5)] Suc
        by (simp add: Let_def)
    qed
  qed
qed

lemma scanFull_min:
  "if \<forall>j < length av. a_taken (av ! j) \<or> \<not> getColorDist (a_color (av ! j)) hex < bd
   then scanFull hex av i bd bi = bi
   else \<exists>k < length av. scanFull hex av i bd bi = Some (i + k)
          \<and> \<not> a_taken (av ! k) \<and> getColorDist (a_color (av ! k)) hex < bd
          \<and> (\<forall>j < length av. \<not> a_taken (av ! j) \<longrightarrow>
                getColorDist (a_color (av ! k)) hex \<le> getColorDist (a_color (av ! j)) hex)
          \<and> (\<forall>j < k. \<not> a_taken (av ! j) \<longrightarrow>
                getColorDist (a_color (av ! k)) hex < getColorDist (a_color (av ! j)) hex)"
proof (induction av arbitrary: i bd bi)
  case Nil
  then show ?case by simp
next
  case (Cons a as)
  let ?D = "\<lambda>x. getColorDist (a_color x) hex"
  let ?none = "\<lambda>b. \<forall>j < length as. a_taken (as ! j) \<or> \<not> ?D (as ! j) < b"
  let ?best = "\<lambda>b k. k < length as \<and> \<not> a_taken (as ! k) \<and> ?D (as ! k) < b
          \<and> (\<forall>j < length as. \<not> a_taken (as ! j) \<longrightarrow> ?D (as ! k) \<le> ?D (as ! j))
          \<and> (\<forall>j < k. \<not> a_taken (as ! j) \<longrightarrow> ?D (as ! k) < ?D (as ! j))"
  have IH: "(?none b \<and> scanFull hex as (Suc i) b c = c)
            \<or> (\<not> ?none b \<and> (\<exists>k. ?best b k \<and> scanFull hex as (Suc i) b c = Some (Suc i + k)))"
    for b c
    using Cons.IH [of b "Suc i" c] by (auto split: if_splits)
  consider (skip) "a_taken a \<or> \<not> ?D a < bd" | (take) "\<not> a_taken a" "?D a < bd"
    by blast
  then show ?case
  proof cases
    case skip
    then have eq: "scanFull hex (a # as) i bd bi = scanFull hex as (Suc i) bd bi"
      by (auto simp: Let_def)
    from IH [of bd bi] consider
      (none) "?none bd" "scanFull hex as (Suc i) bd bi = bi"
      | (some) k where "\<not> ?none bd" "?best bd k"
          "scanFull hex as (Suc i) bd bi = Some (Suc i + k)"
      by blast
    then show ?thesis
    proof cases
      case none
      with skip eq show ?thesis
        by (auto simp: less_Suc_eq_0_disj)
    next
      case some
      note n = some(1) and b = some(2) and r = some(3)
      have "\<not> (\<forall>j < length (a # as). a_taken ((a # as) ! j) \<or> \<not> ?D ((a # as) ! j) < bd)"
        using n by (auto simp: less_Suc_eq_0_disj)
      moreover have "Suc k < length (a # as) \<and> scanFull hex (a # as) i bd bi = Some (i + Suc k)
          \<and> \<not> a_taken ((a # as) ! Suc k) \<and> ?D ((a # as) ! Suc k) < bd
          \<and> (\<forall>j < length (a # as). \<not> a_taken ((a # as) ! j) \<longrightarrow>
                ?D ((a # as) ! Suc k) \<le> ?D ((a # as) ! j))
          \<and> (\<forall>j < Suc k. \<not> a_taken ((a # as) ! j) \<longrightarrow>
                ?D ((a # as) ! Suc k) < ?D ((a # as) ! j))"
        using b r eq skip by (auto simp: less_Suc_eq_0_disj)
      ultimately show ?thesis by (simp only: if_False) blast
    qed
  next
    case take
    then have eq: "scanFull hex (a # as) i bd bi = scanFull hex as (Suc i) (?D a) (Some i)"
      by (simp add: Let_def)
    have n: "\<not> (\<forall>j < length (a # as). a_taken ((a # as) ! j) \<or> \<not> ?D ((a # as) ! j) < bd)"
      using take by auto
    from IH [of "?D a" "Some i"] consider
      (none) "?none (?D a)" "scanFull hex as (Suc i) (?D a) (Some i) = Some i"
      | (some) k where "?best (?D a) k"
          "scanFull hex as (Suc i) (?D a) (Some i) = Some (Suc i + k)"
      by blast
    then show ?thesis
    proof cases
      case none
      then have "0 < length (a # as) \<and> scanFull hex (a # as) i bd bi = Some (i + 0)
          \<and> \<not> a_taken ((a # as) ! 0) \<and> ?D ((a # as) ! 0) < bd
          \<and> (\<forall>j < length (a # as). \<not> a_taken ((a # as) ! j) \<longrightarrow>
                ?D ((a # as) ! 0) \<le> ?D ((a # as) ! j))
          \<and> (\<forall>j < 0. \<not> a_taken ((a # as) ! j) \<longrightarrow>
                ?D ((a # as) ! 0) < ?D ((a # as) ! j))"
        using take eq by (auto simp: less_Suc_eq_0_disj)
      with n show ?thesis by (simp only: if_False) blast
    next
      case some
      note b = some(1) and r = some(2)
      have "Suc k < length (a # as) \<and> scanFull hex (a # as) i bd bi = Some (i + Suc k)
          \<and> \<not> a_taken ((a # as) ! Suc k) \<and> ?D ((a # as) ! Suc k) < bd
          \<and> (\<forall>j < length (a # as). \<not> a_taken ((a # as) ! j) \<longrightarrow>
                ?D ((a # as) ! Suc k) \<le> ?D ((a # as) ! j))
          \<and> (\<forall>j < Suc k. \<not> a_taken ((a # as) ! j) \<longrightarrow>
                ?D ((a # as) ! Suc k) < ?D ((a # as) ! j))"
        using b r eq take by (auto simp: less_Suc_eq_0_disj)
      with n show ?thesis by (simp only: if_False) blast
    qed
  qed
qed

lemma scan_choice:
  assumes valid: "\<forall>a \<in> set av. getColorDist (a_color a) hex < 9999"
  shows "case scan hex av 0 9999 None of
           None \<Rightarrow> (\<forall>j < length av. a_taken (av ! j))
         | Some k \<Rightarrow>
             k < length av \<and> \<not> a_taken (av ! k)
             \<and> (if \<exists>j < length av. \<not> a_taken (av ! j)
                       \<and> getColorDist (a_color (av ! j)) hex < 0.01
                 then getColorDist (a_color (av ! k)) hex < 0.01
                      \<and> (\<forall>j < k. \<not> a_taken (av ! j) \<longrightarrow>
                             \<not> getColorDist (a_color (av ! j)) hex < 0.01)
                 else (\<forall>j < length av. \<not> a_taken (av ! j) \<longrightarrow>
                         getColorDist (a_color (av ! k)) hex
                           \<le> getColorDist (a_color (av ! j)) hex)
                      \<and> (\<forall>j < k. \<not> a_taken (av ! j) \<longrightarrow>
                             getColorDist (a_color (av ! k)) hex
                               < getColorDist (a_color (av ! j)) hex))"
proof (cases "\<exists>j < length av. \<not> a_taken (av ! j) \<and> getColorDist (a_color (av ! j)) hex < 0.01")
  case True
  let ?P = "\<lambda>j. j < length av \<and> \<not> a_taken (av ! j) \<and> getColorDist (a_color (av ! j)) hex < 0.01"
  define k where "k = (LEAST j. ?P j)"
  from True have "\<exists>j. ?P j" by blast
  then have Pk: "?P k" unfolding k_def by (rule LeastI_ex)
  have least: "\<not> ?P j" if "j < k" for j
    using that unfolding k_def by (rule not_less_Least)
  have before: "\<forall>j < k. a_taken (av ! j) \<or> \<not> getColorDist (a_color (av ! j)) hex < 0.01"
    using least Pk by (metis less_trans)
  have "scan hex av 0 9999 None = Some (0 + k)"
    using Pk before by (intro scan_first_near) simp_all
  then show ?thesis
    using True Pk before by auto
next
  case False
  then have far: "\<forall>a \<in> set av. \<not> a_taken a \<longrightarrow> \<not> getColorDist (a_color a) hex < 0.01"
    by (metis in_set_conv_nth)
  have eq: "scan hex av 0 9999 None = scanFull hex av 0 9999 None"
    using far by (rule scan_eq_scanFull_from)
  show ?thesis
  proof (cases "\<forall>j < length av. a_taken (av ! j)")
    case True
    then have "\<forall>j < length av. a_taken (av ! j) \<or> \<not> getColorDist (a_color (av ! j)) hex < 9999"
      by blast
    with scanFull_min [of av hex 9999 0 None] have "scanFull hex av 0 9999 None = None"
      by (simp split: if_splits)
    with eq True show ?thesis by simp
  next
    case free: False
    then have "\<not> (\<forall>j < length av. a_taken (av ! j)
                  \<or> \<not> getColorDist (a_color (av ! j)) hex < 9999)"
      using valid by (metis nth_mem)
    with scanFull_min [of av hex 9999 0 None] obtain k where
      "k < length av" "scanFull hex av 0 9999 None = Some k" "\<not> a_taken (av ! k)"
      "\<forall>j < length av. \<not> a_taken (av ! j) \<longrightarrow>
          getColorDist (a_color (av ! k)) hex \<le> getColorDist (a_color (av ! j)) hex"
      "\<forall>j < k. \<not> a_taken (av ! j) \<longrightarrow>
          getColorDist (a_color (av ! k)) hex < getColorDist (a_color (av ! j)) hex"
      by (auto split: if_splits)
    with eq False show ?thesis by auto
  qed
qed

section \<open>The loop over the targets\<close>

lemma matchInv_start: "matchInv vs (initAvailable vs, replicate (length vs) None)"
  by (simp add: matchInv_def initAvailable_def)

lemma matchInv_valid:
  assumes "matchInv vs st" and "\<forall>v \<in> set vs. validColor (v_color v)"
  shows "\<forall>a \<in> set (fst st). getColorDist (a_color a) hex < 9999"
proof
  fix a assume "a \<in> set (fst st)"
  then obtain i where i: "i < length (fst st)" "a = fst st ! i"
    by (metis in_set_conv_nth)
  with assms(1) have "i < length vs" "a_color a = v_color (vs ! i)"
    by (simp_all add: matchInv_def)
  with assms(2) show "getColorDist (a_color a) hex < 9999"
    by (simp add: validColor_dist_bound)
qed

lemma matchStep_None:
  "scan (d_color t) (fst st) 0 9999 None = None \<Longrightarrow> matchStep FLOOR_Y st t = st"
  by (cases st) (simp add: matchStep_def)

lemma matchStep_Some:
  assumes "scan (d_color t) (fst st) 0 9999 None = Some k" and "matchInv vs st"
  shows "k < length vs \<and> \<not> a_taken (fst st ! k)
         \<and> matchStep FLOOR_Y st t =
             ((fst st)[k := (fst st ! k)\<lparr>a_taken := True\<rparr>],
              (snd st)[k := Some (matchedTarget FLOOR_Y t)])"
proof -
  from scan_result_free [OF assms(1)] assms(2)
  have k: "k < length vs" "\<not> a_taken (fst st ! k)"
    by (simp_all add: matchInv_def)
  have "a_index (fst st ! k) = k" "k < length (fst st)"
    using k assms(2) by (simp_all add: matchInv_def)
  then show ?thesis
    using k assms(1) by (cases st) (simp add: matchStep_def matchedTarget_def Let_def)
qed

lemma matchStep_inv:
  assumes "matchInv vs st"
  shows "matchInv vs (matchStep FLOOR_Y st t)"
proof (cases "scan (d_color t) (fst st) 0 9999 None")
  case None
  then show ?thesis using assms by (simp add: matchStep_None)
next
  case (Some k)
  from matchStep_Some [OF Some assms, of FLOOR_Y] assms show ?thesis
    by (auto simp: matchInv_def nth_list_update matchedTarget_def)
qed

lemma runMatcher_snoc:
  "runMatcher FLOOR_Y vs (T @ [t]) = matchStep FLOOR_Y (runMatcher FLOOR_Y vs T) t"
  by (simp add: runMatcher_def)

lemma runMatcher_inv: "matchInv vs (runMatcher FLOOR_Y vs T)"
proof (induction T rule: rev_induct)
  case Nil
  show ?case by (simp add: runMatcher_def matchInv_start)
next
  case (snoc t T)
  then show ?case by (simp only: runMatcher_snoc matchStep_inv)
qed

lemma bestIdxAt_snoc_old: "j < length T \<Longrightarrow> bestIdxAt FLOOR_Y vs (T @ [t]) j = bestIdxAt FLOOR_Y vs T j"
  by (simp add: bestIdxAt_def nth_append)

lemma bestIdxAt_snoc_new:
  "bestIdxAt FLOOR_Y vs (T @ [t]) (length T)
     = scan (d_color t) (fst (runMatcher FLOOR_Y vs T)) 0 9999 None"
  by (simp add: bestIdxAt_def)

lemma ex_less_snoc:
  "(\<exists>j < length (T @ [t]). P j) \<longleftrightarrow> (\<exists>j < length T. P j) \<or> P (length T)"
  by (auto simp: less_Suc_eq)

lemma taken_iff_chosen:
  assumes "i < length vs"
  shows "a_taken (fst (runMatcher FLOOR_Y vs T) ! i)
           \<longleftrightarrow> (\<exists>j < length T. bestIdxAt FLOOR_Y vs T j = Some i)"
proof (induction T rule: rev_induct)
  case Nil
  show ?case using assms by (simp add: runMatcher_def initAvailable_def)
next
  case (snoc t T)
  let ?st = "runMatcher FLOOR_Y vs T"
  have inv: "matchInv vs ?st" by (rule runMatcher_inv)
  have old: "(\<exists>j < length T. bestIdxAt FLOOR_Y vs (T @ [t]) j = Some i)
               \<longleftrightarrow> (\<exists>j < length T. bestIdxAt FLOOR_Y vs T j = Some i)"
    by (auto simp: bestIdxAt_snoc_old)
  have step: "a_taken (fst (matchStep FLOOR_Y ?st t) ! i)
                \<longleftrightarrow> a_taken (fst ?st ! i) \<or> scan (d_color t) (fst ?st) 0 9999 None = Some i"
  proof (cases "scan (d_color t) (fst ?st) 0 9999 None")
    case None
    then show ?thesis by (simp add: matchStep_None)
  next
    case (Some k)
    from matchStep_Some [OF Some inv, of FLOOR_Y] inv assms Some show ?thesis
      by (auto simp: matchInv_def nth_list_update)
  qed
  have new: "a_taken (fst (runMatcher FLOOR_Y vs (T @ [t])) ! i)
               \<longleftrightarrow> (\<exists>j < length T. bestIdxAt FLOOR_Y vs T j = Some i)
                   \<or> bestIdxAt FLOOR_Y vs (T @ [t]) (length T) = Some i"
    using step snoc.IH by (simp add: runMatcher_snoc bestIdxAt_snoc_new)
  show ?case
    using new old by (simp only: ex_less_snoc)
qed

lemma mapping_of_chosen:
  assumes "j < length T" and "bestIdxAt FLOOR_Y vs T j = Some i"
  shows "snd (runMatcher FLOOR_Y vs T) ! i = Some (matchedTarget FLOOR_Y (T ! j))"
  using assms
proof (induction T rule: rev_induct)
  case Nil
  then show ?case by simp
next
  case (snoc t T)
  let ?st = "runMatcher FLOOR_Y vs T"
  have inv: "matchInv vs ?st" by (rule runMatcher_inv)
  show ?case
  proof (cases "j < length T")
    case True
    then have c: "bestIdxAt FLOOR_Y vs T j = Some i"
      using snoc.prems by (simp add: bestIdxAt_snoc_old)
    have m: "snd ?st ! i = Some (matchedTarget FLOOR_Y (T ! j))"
      using snoc.IH [OF True c] .
    have i: "i < length vs"
      using c scan_result_free [of "d_color (T ! j)" "fst (runMatcher FLOOR_Y vs (take j T))" 0 9999 None i]
        runMatcher_inv [of vs FLOOR_Y "take j T"]
      by (simp add: bestIdxAt_def matchInv_def)
    have tk: "a_taken (fst ?st ! i)"
      using taken_iff_chosen [OF i, of FLOOR_Y T] True c by blast
    have "snd (matchStep FLOOR_Y ?st t) ! i = snd ?st ! i"
    proof (cases "scan (d_color t) (fst ?st) 0 9999 None")
      case None
      then show ?thesis by (simp add: matchStep_None)
    next
      case (Some k)
      from matchStep_Some [OF Some inv, of FLOOR_Y] tk have "k \<noteq> i"
        by auto
      with matchStep_Some [OF Some inv, of FLOOR_Y] show ?thesis
        by simp
    qed
    with m True show ?thesis
      by (simp add: runMatcher_snoc nth_append)
  next
    case False
    with snoc.prems have j: "j = length T" by simp
    then have c: "scan (d_color t) (fst ?st) 0 9999 None = Some i"
      using snoc.prems by (simp add: bestIdxAt_snoc_new)
    from matchStep_Some [OF c inv, of FLOOR_Y] inv j show ?thesis
      by (simp add: runMatcher_snoc matchInv_def)
  qed
qed

lemma bestIdxAt_range:
  "bestIdxAt FLOOR_Y vs T j = Some i \<Longrightarrow> i < length vs"
  using scan_result_free [of "d_color (T ! j)" "fst (runMatcher FLOOR_Y vs (take j T))" 0 9999 None i]
    runMatcher_inv [of vs FLOOR_Y "take j T"]
  by (simp add: bestIdxAt_def matchInv_def)

lemma unchosen_unmapped:
  assumes "i < length vs" and "\<forall>j < length T. bestIdxAt FLOOR_Y vs T j \<noteq> Some i"
  shows "snd (runMatcher FLOOR_Y vs T) ! i = None"
proof -
  have "\<not> a_taken (fst (runMatcher FLOOR_Y vs T) ! i)"
    using taken_iff_chosen [OF assms(1), of FLOOR_Y T] assms(2) by blast
  then show ?thesis
    using runMatcher_inv [of vs FLOOR_Y T] assms(1) by (simp add: matchInv_def)
qed

lemma takenSet_finite: "finite (takenSet n av)"
  by (simp add: takenSet_def)

lemma takenSet_full: "card (takenSet n av) = n \<longleftrightarrow> (\<forall>i < n. a_taken (av ! i))"
proof
  assume c: "card (takenSet n av) = n"
  have "takenSet n av \<subseteq> {..<n}" by (auto simp: takenSet_def)
  moreover have "card {..<n} = n" by simp
  ultimately have "takenSet n av = {..<n}"
    using c by (metis card_subset_eq finite_lessThan)
  then show "\<forall>i < n. a_taken (av ! i)" by (auto simp: takenSet_def)
next
  assume "\<forall>i < n. a_taken (av ! i)"
  then have "takenSet n av = {..<n}" by (auto simp: takenSet_def)
  then show "card (takenSet n av) = n" by simp
qed

lemma takenSet_le: "card (takenSet n av) \<le> n"
proof -
  have "takenSet n av \<subseteq> {..<n}" by (auto simp: takenSet_def)
  then have "card (takenSet n av) \<le> card {..<n}" by (intro card_mono) simp_all
  then show ?thesis by simp
qed

lemma takenSet_update:
  assumes "k < n" "n = length av" "\<not> a_taken (av ! k)"
  shows "card (takenSet n (av[k := (av ! k)\<lparr>a_taken := True\<rparr>])) = Suc (card (takenSet n av))"
proof -
  have "takenSet n (av[k := (av ! k)\<lparr>a_taken := True\<rparr>]) = insert k (takenSet n av)"
    using assms by (auto simp: takenSet_def nth_list_update)
  moreover have "k \<notin> takenSet n av" using assms by (simp add: takenSet_def)
  ultimately show ?thesis by (simp add: takenSet_finite)
qed

lemma scan_None_all_taken:
  assumes "matchInv vs st" and "\<forall>v \<in> set vs. validColor (v_color v)"
  shows "scan hex (fst st) 0 9999 None = None \<longleftrightarrow> (\<forall>i < length vs. a_taken (fst st ! i))"
proof -
  have len: "length (fst st) = length vs" using assms(1) by (simp add: matchInv_def)
  have "scan hex (fst st) 0 9999 None = None \<longleftrightarrow> (\<forall>a \<in> set (fst st). a_taken a)"
    using matchInv_valid [OF assms, of hex] by (auto simp: scan_None_iff)
  also have "\<dots> \<longleftrightarrow> (\<forall>i < length vs. a_taken (fst st ! i))"
    using len by (metis in_set_conv_nth)
  finally show ?thesis .
qed

lemma taken_count:
  assumes "\<forall>v \<in> set vs. validColor (v_color v)"
  shows "card (takenSet (length vs) (fst (runMatcher FLOOR_Y vs T))) = min (length T) (length vs)"
proof (induction T rule: rev_induct)
  case Nil
  have "takenSet (length vs) (initAvailable vs) = {}"
    by (auto simp: takenSet_def initAvailable_def)
  then show ?case by (simp add: runMatcher_def)
next
  case (snoc t T)
  let ?st = "runMatcher FLOOR_Y vs T"
  let ?n = "length vs"
  have inv: "matchInv vs ?st" by (rule runMatcher_inv)
  show ?case
  proof (cases "scan (d_color t) (fst ?st) 0 9999 None")
    case None
    then have "\<forall>i < ?n. a_taken (fst ?st ! i)"
      using scan_None_all_taken [OF inv assms] by simp
    then have "card (takenSet ?n (fst ?st)) = ?n"
      by (simp add: takenSet_full)
    with snoc.IH None show ?thesis
      by (simp add: runMatcher_snoc matchStep_None)
  next
    case (Some k)
    from matchStep_Some [OF Some inv, of FLOOR_Y] have
      k: "k < ?n" "\<not> a_taken (fst ?st ! k)" and
      st: "fst (matchStep FLOOR_Y ?st t) = (fst ?st)[k := (fst ?st ! k)\<lparr>a_taken := True\<rparr>]"
      by simp_all
    have len: "?n = length (fst ?st)" using inv by (simp add: matchInv_def)
    have up: "card (takenSet ?n (fst (matchStep FLOOR_Y ?st t))) = Suc (card (takenSet ?n (fst ?st)))"
      unfolding st using k(1) len k(2) by (rule takenSet_update)
    have "card (takenSet ?n (fst ?st)) \<noteq> ?n"
      using k by (auto simp: takenSet_full)
    then have "card (takenSet ?n (fst ?st)) < ?n"
      using takenSet_le [of ?n "fst ?st"] by simp
    with snoc.IH up show ?thesis
      by (simp add: runMatcher_snoc)
  qed
qed

lemma chosen_iff_early:
  assumes "\<forall>v \<in> set vs. validColor (v_color v)"
  shows "bestIdxAt FLOOR_Y vs T j \<noteq> None \<longleftrightarrow> j < length vs \<or> length T < j \<and> length T < length vs"
proof -
  let ?st = "runMatcher FLOOR_Y vs (take j T)"
  have inv: "matchInv vs ?st" by (rule runMatcher_inv)
  have "bestIdxAt FLOOR_Y vs T j = None \<longleftrightarrow> card (takenSet (length vs) (fst ?st)) = length vs"
    using scan_None_all_taken [OF inv assms] by (simp add: bestIdxAt_def takenSet_full)
  also have "\<dots> \<longleftrightarrow> min (length (take j T)) (length vs) = length vs"
    by (simp only: taken_count [OF assms])
  finally show ?thesis by auto
qed

lemma all_taken_stays:
  assumes "matchInv vs st" and "\<forall>v \<in> set vs. validColor (v_color v)"
    and "\<forall>i < length vs. a_taken (fst st ! i)"
  shows "foldl (matchStep FLOOR_Y) st ts = st"
proof (induction ts rule: rev_induct)
  case Nil
  show ?case by simp
next
  case (snoc t ts)
  have "scan (d_color t) (fst st) 0 9999 None = None"
    using scan_None_all_taken [OF assms(1,2)] assms(3) by simp
  then show ?case using snoc.IH by (simp add: matchStep_None)
qed

lemma runMatcher_excess:
  assumes "\<forall>v \<in> set vs. validColor (v_color v)" and "length vs \<le> length T"
  shows "runMatcher FLOOR_Y vs T = runMatcher FLOOR_Y vs (take (length vs) T)"
proof -
  let ?st = "runMatcher FLOOR_Y vs (take (length vs) T)"
  have inv: "matchInv vs ?st" by (rule runMatcher_inv)
  have "card (takenSet (length vs) (fst ?st)) = length vs"
    using assms(2) by (simp add: taken_count [OF assms(1)])
  then have full: "\<forall>i < length vs. a_taken (fst ?st ! i)"
    by (simp add: takenSet_full)
  have "runMatcher FLOOR_Y vs T
          = foldl (matchStep FLOOR_Y) ?st (drop (length vs) T)"
    unfolding runMatcher_def by (simp only: foldl_append [symmetric] append_take_drop_id)
  also have "\<dots> = ?st"
    using inv assms(1) full by (rule all_taken_stays)
  finally show ?thesis .
qed

lemma bestIdxAt_take:
  "j' < j \<Longrightarrow> j \<le> length T \<Longrightarrow> bestIdxAt FLOOR_Y vs (take j T) j' = bestIdxAt FLOOR_Y vs T j'"
  by (simp add: bestIdxAt_def min_def)

lemma freeAt_untaken:
  assumes "j \<le> length T" and "i < length vs"
  shows "freeAt FLOOR_Y vs T j i \<longleftrightarrow> \<not> a_taken (fst (runMatcher FLOOR_Y vs (take j T)) ! i)"
proof -
  have "a_taken (fst (runMatcher FLOOR_Y vs (take j T)) ! i)
          \<longleftrightarrow> (\<exists>j' < j. bestIdxAt FLOOR_Y vs (take j T) j' = Some i)"
    using taken_iff_chosen [OF assms(2), of FLOOR_Y "take j T"] assms(1) by (simp add: min_def)
  also have "\<dots> \<longleftrightarrow> (\<exists>j' < j. bestIdxAt FLOOR_Y vs T j' = Some i)"
    using assms(1) by (auto simp: bestIdxAt_take)
  also have "\<dots> \<longleftrightarrow> Some i \<in> set (map (bestIdxAt FLOOR_Y vs T) [0..<j])"
    by (auto simp: image_iff) (metis atLeastLessThan_iff le0)
  finally show ?thesis using assms(2) by (simp add: freeAt_def)
qed

lemma choice_rule:
  assumes valid: "\<forall>v \<in> set vs. validColor (v_color v)" and j: "j < length T"
  shows "case bestIdxAt FLOOR_Y vs T j of
           None \<Rightarrow> (\<forall>i < length vs. \<not> freeAt FLOOR_Y vs T j i)
         | Some k \<Rightarrow>
             freeAt FLOOR_Y vs T j k
             \<and> (if \<exists>i. freeAt FLOOR_Y vs T j i
                        \<and> getColorDist (v_color (vs ! i)) (d_color (T ! j)) < 0.01
                 then getColorDist (v_color (vs ! k)) (d_color (T ! j)) < 0.01
                      \<and> (\<forall>i < k. freeAt FLOOR_Y vs T j i \<longrightarrow>
                             \<not> getColorDist (v_color (vs ! i)) (d_color (T ! j)) < 0.01)
                 else (\<forall>i. freeAt FLOOR_Y vs T j i \<longrightarrow>
                         getColorDist (v_color (vs ! k)) (d_color (T ! j))
                           \<le> getColorDist (v_color (vs ! i)) (d_color (T ! j)))
                      \<and> (\<forall>i < k. freeAt FLOOR_Y vs T j i \<longrightarrow>
                             getColorDist (v_color (vs ! k)) (d_color (T ! j))
                               < getColorDist (v_color (vs ! i)) (d_color (T ! j))))"
proof -
  let ?st = "runMatcher FLOOR_Y vs (take j T)"
  let ?av = "fst ?st" and ?hex = "d_color (T ! j)"
  let ?free = "freeAt FLOOR_Y vs T j"
  have inv: "matchInv vs ?st" by (rule runMatcher_inv)
  have len: "length ?av = length vs" using inv by (simp add: matchInv_def)
  have col: "a_color (?av ! i) = v_color (vs ! i)" if "i < length vs" for i
    using inv that by (simp add: matchInv_def)
  have fr: "\<not> a_taken (?av ! i) \<longleftrightarrow> ?free i" if "i < length vs" for i
    using freeAt_untaken [of j T i vs FLOOR_Y] j that by simp
  have frn: "i < length vs" if "?free i" for i
    using that by (simp add: freeAt_def)
  have b: "bestIdxAt FLOOR_Y vs T j = scan ?hex ?av 0 9999 None"
    by (simp add: bestIdxAt_def)
  note ch = scan_choice [OF matchInv_valid [OF inv valid], of ?hex]
  show ?thesis
  proof (cases "scan ?hex ?av 0 9999 None")
    case None
    with ch have "\<forall>i < length ?av. a_taken (?av ! i)" by simp
    then have "\<forall>i < length vs. \<not> ?free i"
      using fr len by auto
    with None b show ?thesis by simp
  next
    case (Some k)
    note ch' = ch [unfolded Some option.case]
    have k: "k < length vs" "\<not> a_taken (?av ! k)"
      using ch' [THEN conjunct1] ch' [THEN conjunct2, THEN conjunct1] len by simp_all
    note rule = ch' [THEN conjunct2, THEN conjunct2]
    have fk: "?free k" using k fr by simp
    have cond: "(\<exists>i < length ?av. \<not> a_taken (?av ! i) \<and> getColorDist (a_color (?av ! i)) ?hex < 0.01)
                  \<longleftrightarrow> (\<exists>i. ?free i \<and> getColorDist (v_color (vs ! i)) ?hex < 0.01)"
    proof
      assume "\<exists>i < length ?av. \<not> a_taken (?av ! i) \<and> getColorDist (a_color (?av ! i)) ?hex < 0.01"
      then obtain i where i: "i < length vs" "\<not> a_taken (?av ! i)"
        "getColorDist (a_color (?av ! i)) ?hex < 0.01"
        unfolding len by blast
      have "?free i" using i(2) fr [OF i(1)] by blast
      moreover have "getColorDist (v_color (vs ! i)) ?hex < 0.01"
        using i(3) unfolding col [OF i(1)] .
      ultimately show "\<exists>i. ?free i \<and> getColorDist (v_color (vs ! i)) ?hex < 0.01"
        by blast
    next
      assume "\<exists>i. ?free i \<and> getColorDist (v_color (vs ! i)) ?hex < 0.01"
      then obtain i where i: "?free i" "getColorDist (v_color (vs ! i)) ?hex < 0.01"
        by blast
      have n: "i < length vs" using i(1) by (rule frn)
      have "\<not> a_taken (?av ! i)" using i(1) fr [OF n] by blast
      moreover have "getColorDist (a_color (?av ! i)) ?hex < 0.01"
        using i(2) unfolding col [OF n] .
      ultimately show "\<exists>i < length ?av. \<not> a_taken (?av ! i)
          \<and> getColorDist (a_color (?av ! i)) ?hex < 0.01"
        unfolding len using n by blast
    qed
    show ?thesis
    proof (cases "\<exists>i. ?free i \<and> getColorDist (v_color (vs ! i)) ?hex < 0.01")
      case True
      then have c: "\<exists>i < length ?av. \<not> a_taken (?av ! i)
                     \<and> getColorDist (a_color (?av ! i)) ?hex < 0.01"
        using cond by blast
      have r: "getColorDist (a_color (?av ! k)) ?hex < 0.01
        \<and> (\<forall>i < k. \<not> a_taken (?av ! i) \<longrightarrow> \<not> getColorDist (a_color (?av ! i)) ?hex < 0.01)"
        using rule unfolding if_P [OF c] .
      have r1: "getColorDist (v_color (vs ! k)) ?hex < 0.01"
        using r [THEN conjunct1] unfolding col [OF k(1)] .
      have r2: "\<forall>i < k. ?free i \<longrightarrow> \<not> getColorDist (v_color (vs ! i)) ?hex < 0.01"
      proof (intro allI impI)
        fix i assume i: "i < k" "?free i"
        have n: "i < length vs" using i(2) by (rule frn)
        have "\<not> a_taken (?av ! i)" using i(2) fr [OF n] by blast
        with r [THEN conjunct2] i(1)
        have "\<not> getColorDist (a_color (?av ! i)) ?hex < 0.01" by blast
        then show "\<not> getColorDist (v_color (vs ! i)) ?hex < 0.01"
          unfolding col [OF n] .
      qed
      show ?thesis
        unfolding b Some option.case if_P [OF True] using fk r1 r2 by blast
    next
      case False
      then have c: "\<not> (\<exists>i < length ?av. \<not> a_taken (?av ! i)
                     \<and> getColorDist (a_color (?av ! i)) ?hex < 0.01)"
        using cond by blast
      have r: "(\<forall>i < length ?av. \<not> a_taken (?av ! i) \<longrightarrow>
            getColorDist (a_color (?av ! k)) ?hex \<le> getColorDist (a_color (?av ! i)) ?hex)
        \<and> (\<forall>i < k. \<not> a_taken (?av ! i) \<longrightarrow>
            getColorDist (a_color (?av ! k)) ?hex < getColorDist (a_color (?av ! i)) ?hex)"
        using rule unfolding if_not_P [OF c] .
      have r1: "\<forall>i. ?free i \<longrightarrow>
            getColorDist (v_color (vs ! k)) ?hex \<le> getColorDist (v_color (vs ! i)) ?hex"
      proof (intro allI impI)
        fix i assume i: "?free i"
        have n: "i < length vs" using i by (rule frn)
        have "\<not> a_taken (?av ! i)" using i fr [OF n] by blast
        with r [THEN conjunct1] n len
        have "getColorDist (a_color (?av ! k)) ?hex \<le> getColorDist (a_color (?av ! i)) ?hex"
          by simp
        then show "getColorDist (v_color (vs ! k)) ?hex \<le> getColorDist (v_color (vs ! i)) ?hex"
          unfolding col [OF n] col [OF k(1)] .
      qed
      have r2: "\<forall>i < k. ?free i \<longrightarrow>
            getColorDist (v_color (vs ! k)) ?hex < getColorDist (v_color (vs ! i)) ?hex"
      proof (intro allI impI)
        fix i assume i: "i < k" "?free i"
        have n: "i < length vs" using i(2) by (rule frn)
        have "\<not> a_taken (?av ! i)" using i(2) fr [OF n] by blast
        with r [THEN conjunct2] i(1)
        have "getColorDist (a_color (?av ! k)) ?hex < getColorDist (a_color (?av ! i)) ?hex"
          by blast
        then show "getColorDist (v_color (vs ! k)) ?hex < getColorDist (v_color (vs ! i)) ?hex"
          unfolding col [OF n] col [OF k(1)] .
      qed
      show ?thesis
        unfolding b Some option.case if_not_P [OF False] using fk r1 r2 by blast
    qed
  qed
qed

section \<open>The target table and the rubble\<close>

lemma rebuild_accepted:
  "state s \<noteq> REBUILDING \<Longrightarrow>
   rebuild FLOOR_Y now T s =
     s\<lparr> rebuildTargets := fillRubble (voxels s) (snd (runMatcher FLOOR_Y (voxels s) T)),
        rebuildStartTime := now, state := REBUILDING, stateLog := stateLog s @ [REBUILDING] \<rparr>"
  by (simp add: rebuild_def Let_def)

lemma fillRubble_length:
  "length mp = length vs \<Longrightarrow> length (fillRubble vs mp) = length vs"
  by (simp add: fillRubble_def)

lemma fillRubble_nth:
  "length mp = length vs \<Longrightarrow> i < length vs \<Longrightarrow>
   fillRubble vs mp ! i = (case mp ! i of None \<Rightarrow> rubbleTarget (vs ! i) | Some t \<Rightarrow> t)"
  by (simp add: fillRubble_def)

lemma runMatcher_lengths:
  "length (fst (runMatcher FLOOR_Y vs T)) = length vs"
  "length (snd (runMatcher FLOOR_Y vs T)) = length vs"
  using runMatcher_inv [of vs FLOOR_Y T] by (simp_all add: matchInv_def)

lemma rebuilt_nth:
  assumes "i < length vs"
  shows "fillRubble vs (snd (runMatcher FLOOR_Y vs T)) ! i =
           (case snd (runMatcher FLOOR_Y vs T) ! i of
              None \<Rightarrow> rubbleTarget (vs ! i) | Some t \<Rightarrow> t)"
  using assms by (simp add: fillRubble_nth runMatcher_lengths)

lemma rebuilt_rubble_iff:
  assumes "i < length vs"
  shows "t_isRubble (fillRubble vs (snd (runMatcher FLOOR_Y vs T)) ! i)
           \<longleftrightarrow> \<not> a_taken (fst (runMatcher FLOOR_Y vs T) ! i)"
proof -
  have inv: "matchInv vs (runMatcher FLOOR_Y vs T)" by (rule runMatcher_inv)
  show ?thesis
  proof (cases "snd (runMatcher FLOOR_Y vs T) ! i")
    case None
    with inv assms show ?thesis
      by (simp add: rebuilt_nth matchInv_def rubbleTarget_def)
  next
    case (Some t)
    with inv assms show ?thesis
      by (simp add: rebuilt_nth matchInv_def)
  qed
qed

lemma rebuilt_nonrubble_count:
  assumes "\<forall>v \<in> set vs. validColor (v_color v)"
  shows "length (filter (\<lambda>t. \<not> t_isRubble t) (fillRubble vs (snd (runMatcher FLOOR_Y vs T))))
           = min (length T) (length vs)"
proof -
  let ?ts = "fillRubble vs (snd (runMatcher FLOOR_Y vs T))"
  have len: "length ?ts = length vs"
    by (simp add: fillRubble_length runMatcher_lengths)
  have "{i. i < length ?ts \<and> \<not> t_isRubble (?ts ! i)}
          = takenSet (length vs) (fst (runMatcher FLOOR_Y vs T))"
    unfolding takenSet_def len using rebuilt_rubble_iff [of _ vs FLOOR_Y T] by auto
  then show ?thesis
    by (simp add: length_filter_conv_card taken_count [OF assms])
qed

lemma tick_keeps_rubble:
  assumes "state s \<noteq> DISMANTLING" and "length (voxels s) \<le> length (rebuildTargets s)"
  shows "\<exists>s'. updatePhysics FLOOR_Y now s = Inr s'
           \<and> state s' \<noteq> DISMANTLING
           \<and> rebuildTargets s' = rebuildTargets s
           \<and> length (voxels s') = length (voxels s)
           \<and> (\<forall>i < length (voxels s).
                 t_isRubble (rebuildTargets s ! i) \<longrightarrow> voxels s' ! i = voxels s ! i)"
proof (cases "state s = REBUILDING")
  case True
  show ?thesis
    unfolding updatePhysics_rebuilding [OF True assms(2)] Let_def
    using assms(2) True by (auto simp: animateVoxel_rubble)
next
  case False
  with assms(1) have "updatePhysics FLOOR_Y now s = Inr s"
    by (simp add: updatePhysics_def)
  with assms(1) show ?thesis by simp
qed

lemma ticks_keep_rubble:
  assumes "state s \<noteq> DISMANTLING" and "length (voxels s) \<le> length (rebuildTargets s)"
  shows "\<exists>s'. ticks FLOOR_Y nows s = Inr s'
           \<and> (\<forall>i < length (voxels s).
                 t_isRubble (rebuildTargets s ! i) \<longrightarrow> voxels s' ! i = voxels s ! i)"
  using assms
proof (induction nows arbitrary: s)
  case Nil
  then show ?case by simp
next
  case (Cons now nows)
  from tick_keeps_rubble [OF Cons.prems, of FLOOR_Y now] obtain s1 where
    s1: "updatePhysics FLOOR_Y now s = Inr s1" "state s1 \<noteq> DISMANTLING"
      "rebuildTargets s1 = rebuildTargets s" "length (voxels s1) = length (voxels s)"
      "\<forall>i < length (voxels s). t_isRubble (rebuildTargets s ! i) \<longrightarrow> voxels s1 ! i = voxels s ! i"
    by blast
  have "length (voxels s1) \<le> length (rebuildTargets s1)"
    using s1 Cons.prems by simp
  from Cons.IH [OF s1(2) this] obtain s2 where
    s2: "ticks FLOOR_Y nows s1 = Inr s2"
      "\<forall>i < length (voxels s1). t_isRubble (rebuildTargets s1 ! i) \<longrightarrow> voxels s2 ! i = voxels s1 ! i"
    by blast
  have "ticks FLOOR_Y (now # nows) s = Inr s2"
    using s1(1) s2(1) by simp
  moreover have "\<forall>i < length (voxels s). t_isRubble (rebuildTargets s ! i) \<longrightarrow> voxels s2 ! i = voxels s ! i"
    using s1 s2(2) by simp
  ultimately show ?case by blast
qed

lemmas matcher_eval =
  rebuild_def runMatcher_def matchStep_def initAvailable_def fillRubble_def rubbleTarget_def
  exLoaded_def createVoxels_def exEngine_def bestIdxAt_def
  dist_eval colorDistSq_def setHex_def Let_def

lemma exPalette_voxels:
  "voxels exPalette =
     [\<lparr> v_id = 0, v_x = 0, v_y = 0, v_z = 0, v_color = setHex 0xFF0000,
         v_vx = 0, v_vy = 0, v_vz = 0, v_rx = 0, v_ry = 0, v_rz = 0,
         v_rvx = 0, v_rvy = 0, v_rvz = 0 \<rparr>,
      \<lparr> v_id = 1, v_x = 1, v_y = 0, v_z = 0, v_color = setHex 0x00FF00,
         v_vx = 0, v_vy = 0, v_vz = 0, v_rx = 0, v_ry = 0, v_rz = 0,
         v_rvx = 0, v_rvy = 0, v_rvz = 0 \<rparr>,
      \<lparr> v_id = 2, v_x = 2, v_y = 0, v_z = 0, v_color = setHex 0x0000FF,
         v_vx = 0, v_vy = 0, v_vz = 0, v_rx = 0, v_ry = 0, v_rz = 0,
         v_rvx = 0, v_rvy = 0, v_rvz = 0 \<rparr>]"
  by (simp add: exPalette_def exLoaded_def createVoxels_def)

lemma exStore_voxels:
  "voxels exStore =
     [\<lparr> v_id = 0, v_x = 0, v_y = 0, v_z = 0, v_color = setHex 0xFF0000,
         v_vx = 0, v_vy = 0, v_vz = 0, v_rx = 0, v_ry = 0, v_rz = 0,
         v_rvx = 0, v_rvy = 0, v_rvz = 0 \<rparr>,
      \<lparr> v_id = 1, v_x = 1, v_y = 0, v_z = 0, v_color = setHex 0x0000FF,
         v_vx = 0, v_vy = 0, v_vz = 0, v_rx = 0, v_ry = 0, v_rz = 0,
         v_rvx = 0, v_rvy = 0, v_rvz = 0 \<rparr>]"
  by (simp add: exStore_def exLoaded_def createVoxels_def)

section \<open>Greedy colour matching\<close>

text \<open>
  C1 (amended). For an accepted \<^verbatim>\<open>rebuild(T)\<close> on voxels with colours in range, the
  targets are processed in the order of the list, each against the sources no earlier
  target has taken. A target that finds every source taken is dropped. Otherwise its
  source is the lowest-indexed free source nearer than 0.01 to its colour when there
  is one, and else the free source of minimal colour distance, ties going to the lowest
  index. That source receives \<open>{x, y, z, delay}\<close> of the target with
  \<open>delay = max 0 ((y - FLOOR_Y) / 15) * 800\<close>, and a voxel no target has chosen is
  rubble at its own position.
\<close>

theorem matcher_assignment:
  assumes "state s \<noteq> REBUILDING" and "\<forall>v \<in> set (voxels s). validColor (v_color v)"
  shows "let vs = voxels s; s' = rebuild FLOOR_Y now T s; ts = rebuildTargets s' in
           state s' = REBUILDING \<and> rebuildStartTime s' = now \<and> voxels s' = vs
           \<and> length ts = length vs
           \<and> (\<forall>j < length T.
                 case bestIdxAt FLOOR_Y vs T j of
                   None \<Rightarrow> (\<forall>i < length vs. \<not> freeAt FLOOR_Y vs T j i)
                 | Some k \<Rightarrow>
                     freeAt FLOOR_Y vs T j k
                     \<and> ts ! k = \<lparr> t_x = d_x (T ! j), t_y = d_y (T ! j), t_z = d_z (T ! j),
                                  t_isRubble = False,
                                  t_delay = max 0 ((d_y (T ! j) - FLOOR_Y) / 15) * 800 \<rparr>
                     \<and> (if \<exists>i. freeAt FLOOR_Y vs T j i
                                \<and> getColorDist (v_color (vs ! i)) (d_color (T ! j)) < 0.01
                         then getColorDist (v_color (vs ! k)) (d_color (T ! j)) < 0.01
                              \<and> (\<forall>i < k. freeAt FLOOR_Y vs T j i \<longrightarrow>
                                     \<not> getColorDist (v_color (vs ! i)) (d_color (T ! j)) < 0.01)
                         else (\<forall>i. freeAt FLOOR_Y vs T j i \<longrightarrow>
                                 getColorDist (v_color (vs ! k)) (d_color (T ! j))
                                   \<le> getColorDist (v_color (vs ! i)) (d_color (T ! j)))
                              \<and> (\<forall>i < k. freeAt FLOOR_Y vs T j i \<longrightarrow>
                                     getColorDist (v_color (vs ! k)) (d_color (T ! j))
                                       < getColorDist (v_color (vs ! i)) (d_color (T ! j)))))
           \<and> (\<forall>i < length vs.
                 freeAt FLOOR_Y vs T (length T) i \<longrightarrow> ts ! i = rubbleTarget (vs ! i))"
proof -
  let ?vs = "voxels s"
  let ?R = "runMatcher FLOOR_Y ?vs T"
  let ?ts = "fillRubble ?vs (snd ?R)"
  let ?s' = "rebuild FLOOR_Y now T s"
  note valid = assms(2)
  have s': "?s' = s\<lparr> rebuildTargets := ?ts, rebuildStartTime := now, state := REBUILDING,
                      stateLog := stateLog s @ [REBUILDING] \<rparr>"
    using assms(1) by (rule rebuild_accepted)
  have ts: "rebuildTargets ?s' = ?ts" and vx: "voxels ?s' = ?vs"
    and st: "state ?s' = REBUILDING" and tm: "rebuildStartTime ?s' = now"
    by (simp_all add: s')
  have len: "length ?ts = length ?vs"
    by (simp add: fillRubble_length runMatcher_lengths)
  have per: "case bestIdxAt FLOOR_Y ?vs T j of
                   None \<Rightarrow> (\<forall>i < length ?vs. \<not> freeAt FLOOR_Y ?vs T j i)
                 | Some k \<Rightarrow>
                     freeAt FLOOR_Y ?vs T j k
                     \<and> ?ts ! k = \<lparr> t_x = d_x (T ! j), t_y = d_y (T ! j), t_z = d_z (T ! j),
                                  t_isRubble = False,
                                  t_delay = max 0 ((d_y (T ! j) - FLOOR_Y) / 15) * 800 \<rparr>
                     \<and> (if \<exists>i. freeAt FLOOR_Y ?vs T j i
                                \<and> getColorDist (v_color (?vs ! i)) (d_color (T ! j)) < 0.01
                         then getColorDist (v_color (?vs ! k)) (d_color (T ! j)) < 0.01
                              \<and> (\<forall>i < k. freeAt FLOOR_Y ?vs T j i \<longrightarrow>
                                     \<not> getColorDist (v_color (?vs ! i)) (d_color (T ! j)) < 0.01)
                         else (\<forall>i. freeAt FLOOR_Y ?vs T j i \<longrightarrow>
                                 getColorDist (v_color (?vs ! k)) (d_color (T ! j))
                                   \<le> getColorDist (v_color (?vs ! i)) (d_color (T ! j)))
                              \<and> (\<forall>i < k. freeAt FLOOR_Y ?vs T j i \<longrightarrow>
                                     getColorDist (v_color (?vs ! k)) (d_color (T ! j))
                                       < getColorDist (v_color (?vs ! i)) (d_color (T ! j))))"
    if j: "j < length T" for j
  proof (cases "bestIdxAt FLOOR_Y ?vs T j")
    case None
    from choice_rule [OF valid j, of FLOOR_Y] show ?thesis
      unfolding None option.case .
  next
    case (Some k)
    note c = choice_rule [OF valid j, of FLOOR_Y, unfolded Some option.case]
    have kn: "k < length ?vs" using Some by (rule bestIdxAt_range)
    have "snd ?R ! k = Some (matchedTarget FLOOR_Y (T ! j))"
      using j Some by (rule mapping_of_chosen)
    then have "?ts ! k = matchedTarget FLOOR_Y (T ! j)"
      using kn by (simp add: rebuilt_nth)
    then have m: "?ts ! k = \<lparr> t_x = d_x (T ! j), t_y = d_y (T ! j), t_z = d_z (T ! j),
                                  t_isRubble = False,
                                  t_delay = max 0 ((d_y (T ! j) - FLOOR_Y) / 15) * 800 \<rparr>"
      by (simp only: matchedTarget_def)
    show ?thesis
      unfolding Some option.case using c m by blast
  qed
  have rub: "?ts ! i = rubbleTarget (?vs ! i)"
    if i: "i < length ?vs" and f: "freeAt FLOOR_Y ?vs T (length T) i" for i
  proof -
    have "\<not> a_taken (fst ?R ! i)"
      using f freeAt_untaken [of "length T" T i ?vs FLOOR_Y] i by simp
    then have "snd ?R ! i = None"
      using runMatcher_inv [of ?vs FLOOR_Y T] i by (simp add: matchInv_def)
    then show ?thesis using i by (simp add: rebuilt_nth)
  qed
  show ?thesis
    unfolding Let_def ts vx using st tm len per rub by blast
qed

text \<open>
  C1 as stated fails: with sources of colour \<open>0x000001\<close> and \<open>0x000000\<close> and one
  black target, the second source is strictly nearer (distance 0), yet the scan stops
  at the first, whose distance is below 0.01; the second source becomes rubble.
\<close>

theorem matcher_not_minimal_counterexample:
  "state exNear \<noteq> REBUILDING
   \<and> getColorDist (v_color (voxels exNear ! 1)) 0x000000
       < getColorDist (v_color (voxels exNear ! 0)) 0x000000
   \<and> bestIdxAt 0 (voxels exNear) [\<lparr> d_x = 5, d_y = 0, d_z = 5, d_color = 0x000000 \<rparr>] 0 = Some 0
   \<and> rebuildTargets (rebuild 0 0 [\<lparr> d_x = 5, d_y = 0, d_z = 5, d_color = 0x000000 \<rparr>] exNear)
       = [\<lparr> t_x = 5, t_y = 0, t_z = 5, t_isRubble = False, t_delay = 0 \<rparr>,
          \<lparr> t_x = 1, t_y = 0, t_z = 0, t_isRubble = True, t_delay = 0 \<rparr>]"
  by (simp add: exNear_def matcher_eval)

text \<open>
  Red, green and blue sources; a red target (an exact match), a cyan target (no source
  near it: green is the nearest), a green target (only blue is left) and a blue target
  that finds nothing free.
\<close>

theorem matcher_assignment_witness:
  "state exPalette \<noteq> REBUILDING
   \<and> validColor (v_color (voxels exPalette ! 0))
   \<and> validColor (v_color (voxels exPalette ! 1))
   \<and> validColor (v_color (voxels exPalette ! 2))
   \<and> map (bestIdxAt 0 (voxels exPalette) exTargets) [0, 1, 2, 3] = [Some 0, Some 1, Some 2, None]
   \<and> rebuildTargets (rebuild 0 0 exTargets exPalette)
       = [\<lparr> t_x = 0, t_y = 15, t_z = 0, t_isRubble = False, t_delay = 800 \<rparr>,
          \<lparr> t_x = 1, t_y = - 3, t_z = 0, t_isRubble = False, t_delay = 0 \<rparr>,
          \<lparr> t_x = 2, t_y = 7.5, t_z = 0, t_isRubble = False, t_delay = 400 \<rparr>]
   \<and> state (rebuild 0 0 exTargets exPalette) = REBUILDING"
proof -
  have h1: "state exPalette \<noteq> REBUILDING"
    by (simp add: exPalette_def exLoaded_def)
  have h2: "\<forall>v \<in> set (voxels exPalette). validColor (v_color v)"
    by (simp add: exPalette_voxels validColor_setHex)
  have v: "validColor (v_color (voxels exPalette ! 0))" "validColor (v_color (voxels exPalette ! 1))"
    "validColor (v_color (voxels exPalette ! 2))"
    by (simp_all add: exPalette_voxels validColor_setHex)
  have b: "map (bestIdxAt 0 (voxels exPalette) exTargets) [0, 1, 2, 3]
             = [Some 0, Some 1, Some 2, None]"
    by (simp add: exPalette_voxels exTargets_def matcher_eval)
  have r: "rebuildTargets (rebuild 0 0 exTargets exPalette)
       = [\<lparr> t_x = 0, t_y = 15, t_z = 0, t_isRubble = False, t_delay = 800 \<rparr>,
          \<lparr> t_x = 1, t_y = - 3, t_z = 0, t_isRubble = False, t_delay = 0 \<rparr>,
          \<lparr> t_x = 2, t_y = 7.5, t_z = 0, t_isRubble = False, t_delay = 400 \<rparr>]"
    by (simp add: exPalette_def exTargets_def matcher_eval)
  have "state (rebuild 0 0 exTargets exPalette) = REBUILDING"
    using matcher_assignment [OF h1 h2, of 0 0 exTargets] unfolding Let_def by (rule conjunct1)
  with h1 v b r show ?thesis by simp
qed

section \<open>Shortfall and excess of targets\<close>

text \<open>
  C3. For an accepted \<^verbatim>\<open>rebuild(T)\<close> on voxels with colours in range: the target
  table has one entry per voxel and exactly \<open>min |T| n\<close> of them are not rubble, so
  exactly \<open>|T|\<close> when \<open>T\<close> has fewer cells than there are voxels. A rubble entry
  holds the voxel's own position, and over any sequence of later ticks that voxel
  stays as it is. The \<open>j\<close>-th target gets a source, which receives its entry, exactly
  when \<open>j < n\<close>; later targets find no source. When \<open>T\<close> has at least \<open>n\<close> cells no
  entry is rubble and the result is that of a rebuild with the first \<open>n\<close> targets
  alone.
\<close>

theorem rebuild_rubble_and_excess:
  assumes "state s \<noteq> REBUILDING" and "\<forall>v \<in> set (voxels s). validColor (v_color v)"
  shows "let vs = voxels s; n = length vs; s' = rebuild FLOOR_Y now T s;
             ts = rebuildTargets s'
         in length ts = n
            \<and> length (filter (\<lambda>t. \<not> t_isRubble t) ts) = min (length T) n
            \<and> (length T < n \<longrightarrow> length (filter (\<lambda>t. \<not> t_isRubble t) ts) = length T)
            \<and> (\<forall>i < n. t_isRubble (ts ! i) \<longrightarrow>
                  ts ! i = rubbleTarget (vs ! i)
                  \<and> (\<forall>nows. \<exists>s''. ticks FLOOR_Y nows s' = Inr s'' \<and> voxels s'' ! i = vs ! i))
            \<and> (\<forall>j < length T.
                  if j < n
                  then \<exists>k < n. bestIdxAt FLOOR_Y vs T j = Some k
                         \<and> ts ! k = \<lparr> t_x = d_x (T ! j), t_y = d_y (T ! j), t_z = d_z (T ! j),
                                      t_isRubble = False,
                                      t_delay = max 0 ((d_y (T ! j) - FLOOR_Y) / 15) * 800 \<rparr>
                  else bestIdxAt FLOOR_Y vs T j = None)
            \<and> (n \<le> length T \<longrightarrow>
                  (\<forall>i < n. \<not> t_isRubble (ts ! i))
                  \<and> s' = rebuild FLOOR_Y now (take n T) s)"
proof -
  let ?vs = "voxels s" and ?n = "length (voxels s)"
  let ?R = "runMatcher FLOOR_Y (voxels s) T"
  let ?ts = "fillRubble ?vs (snd ?R)"
  let ?s' = "rebuild FLOOR_Y now T s"
  note valid = assms(2)
  have s': "?s' = s\<lparr> rebuildTargets := ?ts, rebuildStartTime := now, state := REBUILDING,
                      stateLog := stateLog s @ [REBUILDING] \<rparr>"
    using assms(1) by (rule rebuild_accepted)
  have ts: "rebuildTargets ?s' = ?ts" and vx: "voxels ?s' = ?vs" and st: "state ?s' = REBUILDING"
    by (simp_all add: s')
  have len: "length ?ts = ?n"
    by (simp add: fillRubble_length runMatcher_lengths)
  have cnt: "length (filter (\<lambda>t. \<not> t_isRubble t) ?ts) = min (length T) ?n"
    using valid by (rule rebuilt_nonrubble_count)
  have rub: "?ts ! i = rubbleTarget (?vs ! i)
             \<and> (\<forall>nows. \<exists>s''. ticks FLOOR_Y nows ?s' = Inr s'' \<and> voxels s'' ! i = ?vs ! i)"
    if i: "i < ?n" and r: "t_isRubble (?ts ! i)" for i
  proof
    have inv: "matchInv ?vs ?R" by (rule runMatcher_inv)
    have "\<not> a_taken (fst ?R ! i)"
      using r rebuilt_rubble_iff [OF i, of FLOOR_Y T] by simp
    then have "snd ?R ! i = None"
      using inv i by (simp add: matchInv_def)
    then show "?ts ! i = rubbleTarget (?vs ! i)"
      using i by (simp add: rebuilt_nth)
  next
    show "\<forall>nows. \<exists>s''. ticks FLOOR_Y nows ?s' = Inr s'' \<and> voxels s'' ! i = ?vs ! i"
    proof
      fix nows
      have a: "state ?s' \<noteq> DISMANTLING" by (simp add: st)
      have b: "length (voxels ?s') \<le> length (rebuildTargets ?s')" by (simp add: ts vx len)
      from ticks_keep_rubble [OF a b, of FLOOR_Y nows] i r
      show "\<exists>s''. ticks FLOOR_Y nows ?s' = Inr s'' \<and> voxels s'' ! i = ?vs ! i"
        unfolding ts vx by blast
    qed
  qed
  have win: "if j < ?n
             then \<exists>k < ?n. bestIdxAt FLOOR_Y ?vs T j = Some k
                    \<and> ?ts ! k = \<lparr> t_x = d_x (T ! j), t_y = d_y (T ! j), t_z = d_z (T ! j),
                                  t_isRubble = False,
                                  t_delay = max 0 ((d_y (T ! j) - FLOOR_Y) / 15) * 800 \<rparr>
             else bestIdxAt FLOOR_Y ?vs T j = None"
    if j: "j < length T" for j
  proof (cases "j < ?n")
    case True
    then have "bestIdxAt FLOOR_Y ?vs T j \<noteq> None"
      using chosen_iff_early [OF valid, of FLOOR_Y T j] by simp
    then obtain k where k: "bestIdxAt FLOOR_Y ?vs T j = Some k" by blast
    have kn: "k < ?n" using k by (rule bestIdxAt_range)
    have "snd ?R ! k = Some (matchedTarget FLOOR_Y (T ! j))"
      using j k by (rule mapping_of_chosen)
    then have "?ts ! k = matchedTarget FLOOR_Y (T ! j)"
      using kn by (simp add: rebuilt_nth)
    with k kn True show ?thesis
      by (simp add: matchedTarget_def)
  next
    case False
    then have "bestIdxAt FLOOR_Y ?vs T j = None"
      using chosen_iff_early [OF valid, of FLOOR_Y T j] j by auto
    with False show ?thesis by simp
  qed
  have full: "(\<forall>i < ?n. \<not> t_isRubble (?ts ! i)) \<and> ?s' = rebuild FLOOR_Y now (take ?n T) s"
    if n: "?n \<le> length T"
  proof
    have "card (takenSet ?n (fst ?R)) = ?n"
      using n by (simp add: taken_count [OF valid])
    then have "\<forall>i < ?n. a_taken (fst ?R ! i)"
      by (simp add: takenSet_full)
    then show "\<forall>i < ?n. \<not> t_isRubble (?ts ! i)"
      by (simp add: rebuilt_rubble_iff)
  next
    have "?R = runMatcher FLOOR_Y ?vs (take ?n T)"
      using valid n by (rule runMatcher_excess)
    then show "?s' = rebuild FLOOR_Y now (take ?n T) s"
      using assms(1) by (simp add: rebuild_accepted)
  qed
  show ?thesis
    unfolding Let_def ts
    using len cnt rub win full by (auto simp only: min_def split: if_splits)
qed

text \<open>
  A red and a blue voxel: with one blue target the red voxel is rubble and stays where
  it is through two ticks; with three targets both voxels are matched and the third
  target is dropped.
\<close>

theorem rebuild_rubble_and_excess_witness:
  "state exStore \<noteq> REBUILDING
   \<and> validColor (v_color (voxels exStore ! 0))
   \<and> validColor (v_color (voxels exStore ! 1))
   \<and> rebuildTargets (rebuild 0 7 exFewer exStore)
       = [\<lparr> t_x = 0, t_y = 0, t_z = 0, t_isRubble = True, t_delay = 0 \<rparr>,
          \<lparr> t_x = 5, t_y = 15, t_z = 5, t_isRubble = False, t_delay = 800 \<rparr>]
   \<and> map (bestIdxAt 0 (voxels exStore) exMore) [0, 1, 2] = [Some 1, Some 0, None]
   \<and> rebuildTargets (rebuild 0 7 exMore exStore)
       = [\<lparr> t_x = 0, t_y = 2, t_z = 0, t_isRubble = False, t_delay = 320 / 3 \<rparr>,
          \<lparr> t_x = 0, t_y = 1, t_z = 0, t_isRubble = False, t_delay = 160 / 3 \<rparr>]
   \<and> rebuild 0 7 exMore exStore = rebuild 0 7 (take 2 exMore) exStore
   \<and> (\<exists>s''. ticks 0 [100, 2000] (rebuild 0 7 exFewer exStore) = Inr s''
          \<and> voxels s'' ! 0 = voxels exStore ! 0)"
proof -
  have h1: "state exStore \<noteq> REBUILDING"
    by (simp add: exStore_def exLoaded_def)
  have h2: "\<forall>v \<in> set (voxels exStore). validColor (v_color v)"
    by (simp add: exStore_voxels validColor_setHex)
  have v: "validColor (v_color (voxels exStore ! 0))" "validColor (v_color (voxels exStore ! 1))"
    by (simp_all add: exStore_voxels validColor_setHex)
  have n: "length (voxels exStore) = 2" "length exMore = 3"
    by (simp_all add: exStore_voxels exMore_def)
  have f: "rebuildTargets (rebuild 0 7 exFewer exStore)
       = [\<lparr> t_x = 0, t_y = 0, t_z = 0, t_isRubble = True, t_delay = 0 \<rparr>,
          \<lparr> t_x = 5, t_y = 15, t_z = 5, t_isRubble = False, t_delay = 800 \<rparr>]"
    by (simp add: exStore_def exFewer_def matcher_eval)
  have b: "map (bestIdxAt 0 (voxels exStore) exMore) [0, 1, 2] = [Some 1, Some 0, None]"
    by (simp add: exStore_voxels exMore_def matcher_eval)
  have m: "rebuildTargets (rebuild 0 7 exMore exStore)
       = [\<lparr> t_x = 0, t_y = 2, t_z = 0, t_isRubble = False, t_delay = 320 / 3 \<rparr>,
          \<lparr> t_x = 0, t_y = 1, t_z = 0, t_isRubble = False, t_delay = 160 / 3 \<rparr>]"
    by (simp add: exStore_def exMore_def matcher_eval)
  have x: "rebuild 0 7 exMore exStore = rebuild 0 7 (take 2 exMore) exStore"
    using rebuild_rubble_and_excess [OF h1 h2, of 0 7 exMore] n
    unfolding Let_def by simp
  have t: "\<exists>s''. ticks 0 [100, 2000] (rebuild 0 7 exFewer exStore) = Inr s''
          \<and> voxels s'' ! 0 = voxels exStore ! 0"
  proof -
    let ?s' = "rebuild 0 7 exFewer exStore"
    from rebuild_rubble_and_excess [OF h1 h2, of 0 7 exFewer, unfolded Let_def]
    have rub: "\<forall>i < length (voxels exStore). t_isRubble (rebuildTargets ?s' ! i) \<longrightarrow>
                  rebuildTargets ?s' ! i = rubbleTarget (voxels exStore ! i)
                  \<and> (\<forall>nows. \<exists>s''. ticks 0 nows ?s' = Inr s''
                         \<and> voxels s'' ! i = voxels exStore ! i)"
      by blast
    have "0 < length (voxels exStore)" "t_isRubble (rebuildTargets ?s' ! 0)"
      by (simp_all add: n f)
    with rub show ?thesis by blast
  qed
  from h1 v f b m x t show ?thesis by simp
qed

section \<open>What every reachable engine satisfies\<close>

text \<open>
  The two conditions the theorems on the matcher and the animator assume hold in every
  reachable engine: voxel colours have their channels between 0 and 1, and in the
  Rebuilding state the target table has an entry for every voxel, so a tick never
  throws.
\<close>

lemma physicsVoxel_color: "v_color (physicsVoxel FLOOR_Y v) = v_color v"
  by (simp add: physicsVoxel_def Let_def)

lemma animateVoxel_color: "v_color (fst (animateVoxel elapsed v t)) = v_color v"
  by (simp add: animateVoxel_def Let_def)

lemma createVoxels_valid: "\<forall>v \<in> set (createVoxels data). validColor (v_color v)"
  by (auto simp: createVoxels_def validColor_setHex dest!: set_zip_leftD)

lemma rebuild_table_length:
  "state s \<noteq> REBUILDING \<Longrightarrow>
   length (rebuildTargets (rebuild FLOOR_Y now T s)) = length (voxels s)"
  by (simp add: rebuild_accepted fillRubble_length runMatcher_lengths)

lemma reachable_wellformed:
  assumes "reachable FLOOR_Y s"
  shows "(\<forall>v \<in> set (voxels s). validColor (v_color v))
         \<and> (state s = REBUILDING \<longrightarrow> length (voxels s) \<le> length (rebuildTargets s))"
  using assms
proof (induction rule: reachable.induct)
  case created
  show ?case by (simp add: newEngine_def)
next
  case (loaded s data s')
  from loaded.hyps(2) have "voxels s' = createVoxels data \<and> state s' = STABLE"
    by (auto simp: loadInitialModel_def Let_def split: option.splits)
  then show ?case using createVoxels_valid [of data] by simp
next
  case (emptied s data e)
  show ?case using emptied.IH by simp
next
  case (dismantled s random)
  show ?case
  proof (cases "state s = STABLE")
    case True
    then have "state (dismantle random s) = DISMANTLING"
      by (simp add: dismantle_def)
    moreover have "\<forall>v \<in> set (voxels (dismantle random s)). validColor (v_color v)"
      using True dismantled.IH by (auto simp: dismantle_def dest!: set_zip_leftD)
    ultimately show ?thesis by simp
  next
    case False
    then show ?thesis using dismantled.IH by (simp add: dismantle_def)
  qed
next
  case (rebuilt s now targetModel)
  show ?case
  proof (cases "state s = REBUILDING")
    case True
    then show ?thesis using rebuilt.IH by (simp add: rebuild_def)
  next
    case False
    then show ?thesis
      using rebuilt.IH rebuild_table_length [OF False, of FLOOR_Y now targetModel]
      by (simp add: rebuild_accepted)
  qed
next
  case (ticked s now s')
  note wf = ticked.IH
  consider (d) "state s = DISMANTLING" | (r) "state s = REBUILDING" | (st) "state s = STABLE"
    by (cases "state s") auto
  then show ?case
  proof cases
    case d
    then have "s' = s\<lparr> voxels := map (physicsVoxel FLOOR_Y) (voxels s) \<rparr>"
      using ticked.hyps(2) by (simp add: updatePhysics_dismantling)
    then show ?thesis using wf d by (auto simp: physicsVoxel_color)
  next
    case r
    then have len: "length (voxels s) \<le> length (rebuildTargets s)" using wf by simp
    let ?res = "map (\<lambda>(v, t). animateVoxel (real_of_int (now - rebuildStartTime s)) v t)
                  (zip (voxels s) (rebuildTargets s))"
    have v: "voxels s' = map fst ?res" and t: "rebuildTargets s' = rebuildTargets s"
      using ticked.hyps(2) unfolding updatePhysics_rebuilding [OF r len] Let_def
      by (auto split: if_splits)
    have "\<forall>v \<in> set (voxels s'). validColor (v_color v)"
      unfolding v using wf by (auto simp: animateVoxel_color dest!: set_zip_leftD)
    moreover have "length (voxels s') \<le> length (rebuildTargets s')"
      unfolding v t using len by simp
    ultimately show ?thesis by simp
  next
    case st
    then have "s' = s" using ticked.hyps(2) by (simp add: updatePhysics_def)
    then show ?thesis using wf by simp
  qed
qed

lemma reachable_tick_succeeds:
  assumes "reachable FLOOR_Y s"
  shows "\<exists>s'. updatePhysics FLOOR_Y now s = Inr s'"
  using reachable_wellformed [OF assms] by (auto simp: updatePhysics_def Let_def)

end
